theory Spec2Isabelle
  imports Complex_Main
begin

section \<open>JavaScript primitives used by \<^verbatim>\<open>src/index.tsx\<close>\<close>

text \<open>
  Times of day are strings of the form \<^verbatim>\<open>HH:MM\<close>; the source reads them with
  \<^verbatim>\<open>time.split(':').map(Number)\<close>. A JavaScript number that is \<^verbatim>\<open>NaN\<close> is modelled
  by \<open>None\<close>, every other number that occurs is an integer. \<open>Number_str\<close> is
  \<^verbatim>\<open>Number(s)\<close> on the empty string and on strings of decimal digits; the other
  numeric literals of JavaScript (sign, fraction, exponent, hexadecimal, white space)
  and values beyond \<open>2^53\<close> are outside this model, which is why the theorems about
  times assume \<open>valid_time\<close>, where the model is exact.
\<close>

definition is_digit :: "char \<Rightarrow> bool" where
  "is_digit c = (c \<in> set ''0123456789'')"

definition digit_val :: "char \<Rightarrow> int" where
  "digit_val c = int (of_char c) - 48"

definition digit_char :: "nat \<Rightarrow> char" where
  "digit_char n = ''0123456789'' ! n"

definition Number_str :: "string \<Rightarrow> int option" where
  "Number_str s =
     (if s = [] then Some 0
      else if list_all is_digit s then Some (foldl (\<lambda>a c. 10 * a + digit_val c) 0 s)
      else None)"

text \<open>\<^verbatim>\<open>s.split(sep)\<close> for a one-character separator.\<close>

fun split_on :: "char \<Rightarrow> string \<Rightarrow> string list" where
  "split_on sep [] = [[]]"
| "split_on sep (c # cs) =
     (if c = sep then [] # split_on sep cs
      else (case split_on sep cs of
              p # ps \<Rightarrow> (c # p) # ps
            | [] \<Rightarrow> [[c]]))"

text \<open>\<^verbatim>\<open>String(n)\<close> for an integer, and for \<^verbatim>\<open>NaN\<close>.\<close>

fun nat_digits :: "nat \<Rightarrow> string" where
  "nat_digits n =
     (if n < 10 then [digit_char n] else nat_digits (n div 10) @ [digit_char (n mod 10)])"

definition Number_toString :: "int \<Rightarrow> string" where
  "Number_toString n =
     (if n < 0 then CHR ''-'' # nat_digits (nat (- n)) else nat_digits (nat n))"

definition String_num :: "int option \<Rightarrow> string" where
  "String_num x = (case x of None \<Rightarrow> ''NaN'' | Some n \<Rightarrow> Number_toString n)"

text \<open>\<^verbatim>\<open>s.padStart(n, c)\<close> for a one-character pad string.\<close>

definition padStart :: "nat \<Rightarrow> char \<Rightarrow> string \<Rightarrow> string" where
  "padStart n c s = replicate (n - length s) c @ s"

text \<open>
  \<^verbatim>\<open>Math.round(x)\<close> is the integer nearest to \<open>x\<close>, a tie going up: \<open>\<lfloor>x + 1/2\<rfloor>\<close>.
  The source applies it to \<^verbatim>\<open>total / 5\<close> for an integer \<open>total\<close> between 0 and 1435,
  where the double-precision quotient and the real quotient round to the same integer.
\<close>

definition Math_round :: "real \<Rightarrow> int" where
  "Math_round x = \<lfloor>x + 1 / 2\<rfloor>"

text \<open>JavaScript truthiness of an optional string: \<^verbatim>\<open>undefined\<close> and \<^verbatim>\<open>''\<close> are falsy.\<close>

definition falsy :: "string option \<Rightarrow> bool" where
  "falsy x = (x = None \<or> x = Some [])"

section \<open>Time values and durations\<close>

text \<open>
  \<^verbatim>\<open>const [h, m] = time.split(':').map(Number); return h * 60 + m;\<close>
  A missing second part is \<^verbatim>\<open>undefined\<close>, and the sum is \<^verbatim>\<open>NaN\<close>.
\<close>

definition timeToMinutes :: "string \<Rightarrow> int option" where
  "timeToMinutes time =
     (case map Number_str (split_on CHR '':'' time) of
        Some h # Some m # _ \<Rightarrow> Some (h * 60 + m)
      | _ \<Rightarrow> None)"

text \<open>The operands of \<^verbatim>\<open>Math.floor(rounded / 60)\<close> and \<^verbatim>\<open>rounded % 60\<close> are not negative.\<close>

definition minutesToTime :: "int \<Rightarrow> string" where
  "minutesToTime totalIn =
     (let total = max 0 (min totalIn (23 * 60 + 55));
          rounded = Math_round (real_of_int total / 5) * 5;
          h = rounded div 60;
          m = rounded mod 60
      in padStart 2 CHR ''0'' (Number_toString h) @ '':'' @ padStart 2 CHR ''0'' (Number_toString m))"

definition getDurationMinutes :: "string \<Rightarrow> string option \<Rightarrow> int option" where
  "getDurationMinutes st en_opt =
     (case en_opt of
        None \<Rightarrow> Some 0
      | Some e \<Rightarrow>
          if e = [] then Some 0
          else
            (let startMin = timeToMinutes st;
                 endMin = (if e = ''24:00'' then Some (24 * 60) else timeToMinutes e)
             in case (startMin, endMin) of
                  (Some s, Some en) \<Rightarrow> Some (max 0 (en - s))
                | _ \<Rightarrow> None))"

definition getDuration :: "string \<Rightarrow> string option \<Rightarrow> string" where
  "getDuration st en_opt =
     (if falsy en_opt then ''-''
      else
        (case getDurationMinutes st en_opt of
           None \<Rightarrow> String_num None @ '':'' @ String_num None
         | Some diffMinutes \<Rightarrow>
             if diffMinutes \<le> 0 then ''-''
             else
               (let hours = diffMinutes div 60;
                    minutes = diffMinutes mod 60
                in padStart 2 CHR ''0'' (Number_toString hours) @ '':'' @
                   padStart 2 CHR ''0'' (Number_toString minutes))))"

text \<open>
  A time of day \<^verbatim>\<open>HH:MM\<close> with two digits each, hours below 24 and minutes below 60;
  an end may also be the sentinel \<^verbatim>\<open>24:00\<close>.
\<close>

fun valid_time :: "string \<Rightarrow> bool" where
  "valid_time [a, b, c, d, e] =
     (is_digit a \<and> is_digit b \<and> c = CHR '':'' \<and> is_digit d \<and> is_digit e \<and>
      10 * digit_val a + digit_val b < 24 \<and> 10 * digit_val d + digit_val e < 60)"
| "valid_time _ = False"

definition valid_end :: "string \<Rightarrow> bool" where
  "valid_end e = (valid_time e \<or> e = ''24:00'')"

text \<open>The end of an interval in minutes, the sentinel \<^verbatim>\<open>24:00\<close> being 1440.\<close>

definition endMinutes :: "string \<Rightarrow> int option" where
  "endMinutes e = (if e = ''24:00'' then Some (24 * 60) else timeToMinutes e)"

text \<open>The rendering \<^verbatim>\<open>HH:MM\<close> of a number of minutes below 6000.\<close>

definition two_digits :: "int \<Rightarrow> string" where
  "two_digits n = [digit_char (nat n div 10), digit_char (nat n mod 10)]"

definition hhmm :: "int \<Rightarrow> string" where
  "hhmm t = two_digits (t div 60) @ '':'' @ two_digits (t mod 60)"


section \<open>Entries, split pairs and the id counter\<close>

text \<open>
  \<^verbatim>\<open>type Eintrag = { id: number; date: string; start: string; ende?: string }\<close> and
  \<^verbatim>\<open>type SplitEntry = { id: string; firstId: number; secondId: number }\<close>. The two
  \<^verbatim>\<open>id\<close> fields are named \<open>eid\<close> and \<open>sid\<close> here. Ids are integers far below \<open>2^53\<close>.
\<close>

record Eintrag =
  eid :: int
  date :: string
  start :: string
  ende :: "string option"

record SplitEntry =
  sid :: string
  firstId :: int
  secondId :: int

text \<open>
  \<^verbatim>\<open>let NEXT_ID = Date.now(); const generateId = () => { NEXT_ID += 1; return NEXT_ID; }\<close>
  The counter is passed in and the pair of the new id and the new counter is returned.
\<close>

definition generateId :: "int \<Rightarrow> int \<times> int" where
  "generateId next_id = (next_id + 1, next_id + 1)"

record SplitResult =
  entries :: "Eintrag list"
  split :: "SplitEntry option"

text \<open>
  The splitter. A comparison with \<^verbatim>\<open>NaN\<close> is false, so an unreadable time takes the
  branch that splits.
\<close>

definition createEntriesWithOptionalSplit :: "Eintrag \<Rightarrow> int \<Rightarrow> SplitResult \<times> int" where
  "createEntriesWithOptionalSplit base next_id =
     (case ende base of
        None \<Rightarrow> (\<lparr>entries = [base], split = None\<rparr>, next_id)
      | Some e \<Rightarrow>
          if e = [] then (\<lparr>entries = [base], split = None\<rparr>, next_id)
          else
            (let startMin = timeToMinutes (start base);
                 endMin = (if e = ''24:00'' then Some (24 * 60) else timeToMinutes e);
                 fits = (case (startMin, endMin) of
                           (Some s, Some en) \<Rightarrow> en \<ge> s \<and> en \<le> 24 * 60
                         | _ \<Rightarrow> False)
             in if fits then (\<lparr>entries = [base], split = None\<rparr>, next_id)
                else
                  (let (id1, next1) = generateId next_id;
                       (id2, next2) = generateId next1;
                       nextDate = date base;
                       first = \<lparr>eid = id1, date = date base, start = start base,
                                ende = Some ''24:00''\<rparr>;
                       secondEndTime = e;
                       second = \<lparr>eid = id2, date = nextDate, start = ''00:00'',
                                 ende = Some secondEndTime\<rparr>;
                       sp = \<lparr>sid = Number_toString id1 @ ''-'' @ Number_toString id2,
                             firstId = id1, secondId = id2\<rparr>
                   in (\<lparr>entries = [first, second], split = Some sp\<rparr>, next2))))"

definition buildBaseFromSplit :: "Eintrag \<Rightarrow> Eintrag \<Rightarrow> int \<Rightarrow> Eintrag \<times> int" where
  "buildBaseFromSplit first second next_id =
     (let (new_id, next1) = generateId next_id
      in (\<lparr>eid = new_id, date = date first, start = start first, ende = ende second\<rparr>, next1))"

text \<open>
  \<^verbatim>\<open>getOpenEntryInfo\<close>: the id of the last entry without an end, in collection order.
\<close>

record OpenEntryInfo =
  hasOpen :: bool
  openId :: "int option"

definition getOpenEntryInfo :: "Eintrag list \<Rightarrow> OpenEntryInfo" where
  "getOpenEntryInfo es =
     (let openEntries = filter (\<lambda>e. falsy (ende e)) es
      in if length openEntries = 0 then \<lparr>hasOpen = False, openId = None\<rparr>
         else
           (let lastOpen = openEntries ! (length openEntries - 1)
            in \<lparr>hasOpen = True, openId = Some (eid lastOpen)\<rparr>))"


section \<open>The application state and its handlers\<close>

text \<open>
  The state of the component \<^verbatim>\<open>App\<close> that the handlers read and write, with the
  module-level counter \<^verbatim>\<open>NEXT_ID\<close>. Writing to the key-value store does not change
  this state and is left out. A confirmation dialog is a boolean argument: whether
  the user pressed the confirming button. The clock readings \<^verbatim>\<open>getRoundedNow()\<close> and
  \<^verbatim>\<open>getTodayDate()\<close> are arguments as well.
\<close>

datatype EditMode = Mode_none | Mode_start | Mode_ende

record AppState =
  NEXT_ID :: int
  eintraege :: "Eintrag list"
  splits :: "SplitEntry list"
  editingEntryId :: "int option"
  editMode :: EditMode
  editingStart :: string
  editingEnde :: string

text \<open>
  \<^verbatim>\<open>[...xs].sort((a, b) => b.id - a.id)\<close>: a stable sort, ids descending.
\<close>

definition sortByIdDesc :: "Eintrag list \<Rightarrow> Eintrag list" where
  "sortByIdDesc xs = sort_key (\<lambda>e. - eid e) xs"

definition loadData :: "Eintrag list \<Rightarrow> SplitEntry list \<Rightarrow> AppState \<Rightarrow> AppState" where
  "loadData savedEintraege savedSplits s =
     s\<lparr>eintraege := sortByIdDesc savedEintraege, splits := savedSplits\<rparr>"

definition updateEintraege :: "Eintrag list \<Rightarrow> AppState \<Rightarrow> AppState" where
  "updateEintraege newEintraege s = s\<lparr>eintraege := sortByIdDesc newEintraege\<rparr>"

definition updateSplits :: "SplitEntry list \<Rightarrow> AppState \<Rightarrow> AppState" where
  "updateSplits newSplits s = s\<lparr>splits := newSplits\<rparr>"

definition resetEditState :: "AppState \<Rightarrow> AppState" where
  "resetEditState s =
     s\<lparr>editingEntryId := None, editMode := Mode_none, editingStart := [], editingEnde := []\<rparr>"

definition handleAddStart :: "bool \<Rightarrow> string \<Rightarrow> string \<Rightarrow> AppState \<Rightarrow> AppState" where
  "handleAddStart confirmed currentTime today s =
     (if hasOpen (getOpenEntryInfo (eintraege s)) then
        (if confirmed then
           (let (new_id, next1) = generateId (NEXT_ID s);
                newEintraege = eintraege s @
                  [\<lparr>eid = new_id, date = today, start = currentTime, ende = None\<rparr>]
            in updateEintraege newEintraege (s\<lparr>NEXT_ID := next1\<rparr>))
         else s)
      else
        (let (new_id, next1) = generateId (NEXT_ID s);
             newEintraege = eintraege s @
               [\<lparr>eid = new_id, date = today, start = currentTime, ende = None\<rparr>]
         in updateEintraege newEintraege (s\<lparr>NEXT_ID := next1\<rparr>)))"

definition handleAddEnde :: "string \<Rightarrow> AppState \<Rightarrow> AppState" where
  "handleAddEnde currentTime s =
     (let openEntryInfo = getOpenEntryInfo (eintraege s)
      in case openId openEntryInfo of
           None \<Rightarrow> s
         | Some open_id \<Rightarrow>
             if \<not> hasOpen openEntryInfo then s
             else
               (case find (\<lambda>e. eid e = open_id) (eintraege s) of
                  None \<Rightarrow> s
                | Some openEntry \<Rightarrow>
                    (let base = openEntry\<lparr>ende := Some currentTime\<rparr>;
                         (r, next1) = createEntriesWithOptionalSplit base (NEXT_ID s);
                         newEintraege =
                           filter (\<lambda>e. eid e \<noteq> eid openEntry) (eintraege s) @ entries r;
                         newSplits =
                           filter (\<lambda>p. firstId p \<noteq> eid openEntry \<and> secondId p \<noteq> eid openEntry)
                             (splits s);
                         newSplits' = (case split r of
                                         Some sp \<Rightarrow> newSplits @ [sp]
                                       | None \<Rightarrow> newSplits)
                     in updateSplits newSplits'
                          (updateEintraege newEintraege (s\<lparr>NEXT_ID := next1\<rparr>)))))"

definition handleAddFixedNoonEntry :: "bool \<Rightarrow> string \<Rightarrow> AppState \<Rightarrow> AppState" where
  "handleAddFixedNoonEntry confirmed d s =
     (if confirmed then
        (let (new_id, next1) = generateId (NEXT_ID s);
             newEintrag = \<lparr>eid = new_id, date = d, start = ''12:00'', ende = Some ''12:00''\<rparr>
         in updateEintraege (eintraege s @ [newEintrag]) (s\<lparr>NEXT_ID := next1\<rparr>))
      else s)"

text \<open>
  \<^verbatim>\<open>handleSaveEdit\<close>. \<^verbatim>\<open>!editingEntryId\<close> holds for \<^verbatim>\<open>null\<close> and for \<open>0\<close>. The three ways
  on are: the pair of the edited entry with one half missing, the pair with both
  halves, and an entry of no pair.
\<close>

definition handleSaveEdit :: "AppState \<Rightarrow> AppState" where
  "handleSaveEdit s =
     (case editingEntryId s of
        None \<Rightarrow> s
      | Some edit_id \<Rightarrow>
          if edit_id = 0 then s
          else if editMode s = Mode_start \<and> editingStart s = [] then s
          else if editMode s = Mode_ende \<and> editingEnde s = [] then s
          else
            (case find (\<lambda>e. eid e = edit_id) (eintraege s) of
               None \<Rightarrow> resetEditState s
             | Some original \<Rightarrow>
                 (case find (\<lambda>p. firstId p = eid original \<or> secondId p = eid original)
                         (splits s) of
                    Some existingSplit \<Rightarrow>
                      (case (find (\<lambda>e. eid e = firstId existingSplit) (eintraege s),
                             find (\<lambda>e. eid e = secondId existingSplit) (eintraege s)) of
                         (Some first, Some second) \<Rightarrow>
                           (let newEintraege =
                                  filter (\<lambda>e. eid e \<noteq> firstId existingSplit \<and>
                                               eid e \<noteq> secondId existingSplit) (eintraege s);
                                newSplits =
                                  filter (\<lambda>p. sid p \<noteq> sid existingSplit) (splits s);
                                (base0, next1) = buildBaseFromSplit first second (NEXT_ID s);
                                base = (if editMode s = Mode_start
                                        then base0\<lparr>start := editingStart s\<rparr>
                                        else base0\<lparr>ende := Some (editingEnde s)\<rparr>);
                                (r, next2) = createEntriesWithOptionalSplit base next1;
                                newEintraege' = newEintraege @ entries r;
                                newSplits' = (case split r of
                                                Some sp \<Rightarrow> newSplits @ [sp]
                                              | None \<Rightarrow> newSplits)
                            in resetEditState
                                 (updateSplits newSplits'
                                    (updateEintraege newEintraege' (s\<lparr>NEXT_ID := next2\<rparr>))))
                       | _ \<Rightarrow>
                           (let newEintraege =
                                  filter (\<lambda>e. eid e \<noteq> eid original) (eintraege s);
                                newSplits =
                                  filter (\<lambda>p. sid p \<noteq> sid existingSplit) (splits s);
                                (new_id, next1) = generateId (NEXT_ID s);
                                base0 = original\<lparr>eid := new_id\<rparr>;
                                base = (if editMode s = Mode_start
                                        then base0\<lparr>start := editingStart s\<rparr>
                                        else base0\<lparr>ende := Some (editingEnde s)\<rparr>);
                                (r, next2) = createEntriesWithOptionalSplit base next1;
                                newEintraege' = newEintraege @ entries r;
                                newSplits' = (case split r of
                                                Some sp \<Rightarrow> newSplits @ [sp]
                                              | None \<Rightarrow> newSplits)
                            in resetEditState
                                 (updateSplits newSplits'
                                    (updateEintraege newEintraege' (s\<lparr>NEXT_ID := next2\<rparr>)))))
                  | None \<Rightarrow>
                      (let newEintraege =
                             filter (\<lambda>e. eid e \<noteq> eid original) (eintraege s);
                           (new_id, next1) = generateId (NEXT_ID s);
                           base0 = original\<lparr>eid := new_id\<rparr>;
                           base = (if editMode s = Mode_start
                                   then base0\<lparr>start := editingStart s\<rparr>
                                   else base0\<lparr>ende := Some (editingEnde s)\<rparr>);
                           (r, next2) = createEntriesWithOptionalSplit base next1;
                           newEintraege' = newEintraege @ entries r;
                           newSplits' = (case split r of
                                           Some sp \<Rightarrow> splits s @ [sp]
                                         | None \<Rightarrow> splits s)
                       in resetEditState
                            (updateSplits newSplits'
                               (updateEintraege newEintraege' (s\<lparr>NEXT_ID := next2\<rparr>)))))))"

definition handleDeleteEntry :: "bool \<Rightarrow> int \<Rightarrow> AppState \<Rightarrow> AppState" where
  "handleDeleteEntry confirmed del_id s =
     (if confirmed then
        (let relatedSplit = find (\<lambda>p. firstId p = del_id \<or> secondId p = del_id) (splits s);
             newEintraege = (case relatedSplit of
                Some rs \<Rightarrow> filter (\<lambda>e. eid e \<noteq> firstId rs \<and> eid e \<noteq> secondId rs) (eintraege s)
              | None \<Rightarrow> filter (\<lambda>e. eid e \<noteq> del_id) (eintraege s));
             newSplits = (case relatedSplit of
                Some rs \<Rightarrow> filter (\<lambda>p. sid p \<noteq> sid rs) (splits s)
              | None \<Rightarrow> splits s);
             s' = updateSplits newSplits (updateEintraege newEintraege s)
         in if editingEntryId s = Some del_id then resetEditState s' else s')
      else s)"


section \<open>Calendar dates and the adjusted date\<close>

text \<open>
  \<^verbatim>\<open>getAdjustedDateForEntry\<close> builds \<^verbatim>\<open>new Date(entry.date + 'T00:00:00')\<close>, which
  ECMAScript reads as local time, moves it with \<^verbatim>\<open>setDate(getDate() + 2)\<close>, which counts
  local days, and renders it with \<^verbatim>\<open>toISOString()\<close>, which is in UTC. A time value
  is an integer number of milliseconds since 1970-01-01T00:00:00Z, and \<open>None\<close> is the
  invalid date.

  The host's time zone is the parameter \<open>tz\<close>. It gives the offset from UTC, in
  minutes east of UTC, that is in force at a UTC time value and at a local time
  value: ECMAScript's \<^verbatim>\<open>LocalTZA(t, true)\<close> and \<^verbatim>\<open>LocalTZA(t, false)\<close>. So
  \<^verbatim>\<open>LocalTime(t)\<close> adds the offset at \<open>t\<close>, and \<^verbatim>\<open>UTC(t)\<close> takes off the offset at
  the local time \<open>t\<close>: a date that is moved is converted back with the offset in
  force at the new local time. \<open>fixed_zone m\<close> is a zone whose offset is always
  \<open>m\<close> (\<open>60\<close> for Central European Time, \<open>- 300\<close> for US Eastern Standard Time), and
  \<open>europe_london_2024\<close> is the zone of London for the time values of 2024, summer
  time being in force from 31 March, 01:00 UTC, to 27 October, 01:00 UTC (a local
  time that the change skips or repeats is read with the offset before the change).

  Day numbers and civil dates of the proleptic Gregorian calendar are converted by
  the usual era-based arithmetic (an era is 400 years, 146097 days, starting on
  1 March).
\<close>

definition msPerDay :: int where
  "msPerDay = 86400000"

definition msPerMinute :: int where
  "msPerMinute = 60000"

record TimeZone =
  offsetAtUTC :: "int \<Rightarrow> int"
  offsetAtLocal :: "int \<Rightarrow> int"

definition LocalTime :: "TimeZone \<Rightarrow> int \<Rightarrow> int" where
  "LocalTime tz t = t + offsetAtUTC tz t * msPerMinute"

definition UTC_time :: "TimeZone \<Rightarrow> int \<Rightarrow> int" where
  "UTC_time tz t = t - offsetAtLocal tz t * msPerMinute"

definition fixed_zone :: "int \<Rightarrow> TimeZone" where
  "fixed_zone m = \<lparr>offsetAtUTC = (\<lambda>t. m), offsetAtLocal = (\<lambda>t. m)\<rparr>"

definition europe_london_2024 :: TimeZone where
  "europe_london_2024 =
     \<lparr>offsetAtUTC = (\<lambda>t. if 1711846800000 \<le> t \<and> t < 1729990800000 then 60 else 0),
      offsetAtLocal = (\<lambda>t. if 1711850400000 \<le> t \<and> t < 1729994400000 then 60 else 0)\<rparr>"

definition days_from_civil :: "int \<Rightarrow> int \<Rightarrow> int \<Rightarrow> int" where
  "days_from_civil y m d =
     (let y' = (if m \<le> 2 then y - 1 else y);
          era = y' div 400;
          yoe = y' - era * 400;
          mp = (if m > 2 then m - 3 else m + 9);
          doy = (153 * mp + 2) div 5 + d - 1;
          doe = yoe * 365 + yoe div 4 - yoe div 100 + doy
      in era * 146097 + doe - 719468)"

definition civil_from_days :: "int \<Rightarrow> int \<times> int \<times> int" where
  "civil_from_days z =
     (let z' = z + 719468;
          era = z' div 146097;
          doe = z' - era * 146097;
          yoe = (doe - doe div 1460 + doe div 36524 - doe div 146096) div 365;
          doy = doe - (365 * yoe + yoe div 4 - yoe div 100);
          mp = (5 * doy + 2) div 153;
          d = doy - (153 * mp + 2) div 5 + 1;
          m = (if mp < 10 then mp + 3 else mp - 9);
          y = yoe + era * 400 + (if m \<le> 2 then 1 else 0)
      in (y, m, d))"

definition leap_year :: "int \<Rightarrow> bool" where
  "leap_year y = (y mod 4 = 0 \<and> (y mod 100 \<noteq> 0 \<or> y mod 400 = 0))"

definition days_in_month :: "int \<Rightarrow> int \<Rightarrow> int" where
  "days_in_month y m =
     (if m = 2 then (if leap_year y then 29 else 28)
      else if m = 4 \<or> m = 6 \<or> m = 9 \<or> m = 11 then 30 else 31)"

text \<open>
  The calendar date \<^verbatim>\<open>YYYY-MM-DD\<close> of a string, when it is one. Other strings make
  an invalid date here; what an engine does with a string that is not in the ISO
  format is implementation-defined, and the theorems on dates are about calendar
  dates only.
\<close>

fun parseISODate :: "string \<Rightarrow> (int \<times> int \<times> int) option" where
  "parseISODate [y1, y2, y3, y4, s1, m1, m2, s2, d1, d2] =
     (if is_digit y1 \<and> is_digit y2 \<and> is_digit y3 \<and> is_digit y4 \<and> s1 = CHR ''-'' \<and>
         is_digit m1 \<and> is_digit m2 \<and> s2 = CHR ''-'' \<and> is_digit d1 \<and> is_digit d2
      then
        (let y = 1000 * digit_val y1 + 100 * digit_val y2 + 10 * digit_val y3 + digit_val y4;
             m = 10 * digit_val m1 + digit_val m2;
             d = 10 * digit_val d1 + digit_val d2
         in if 1 \<le> m \<and> m \<le> 12 \<and> 1 \<le> d \<and> d \<le> days_in_month y m
            then Some (y, m, d) else None)
      else None)"
| "parseISODate _ = None"

text \<open>\<^verbatim>\<open>new Date(str)\<close> for \<open>str\<close> a calendar date followed by \<^verbatim>\<open>T00:00:00\<close>: local midnight.\<close>

definition Date_new :: "TimeZone \<Rightarrow> string \<Rightarrow> int option" where
  "Date_new tz str =
     (if drop 10 str = ''T00:00:00''
      then (case parseISODate (take 10 str) of
              None \<Rightarrow> None
            | Some (y, m, d) \<Rightarrow> Some (UTC_time tz (days_from_civil y m d * msPerDay)))
      else None)"

text \<open>
  \<^verbatim>\<open>date.setDate(date.getDate() + n)\<close>: with \<open>t'\<close> the local time,
  \<^verbatim>\<open>MakeDay(YearFromTime(t'), MonthFromTime(t'), DateFromTime(t') + n)\<close> is the day
  number of \<open>t'\<close> plus \<open>n\<close>, the time within the day is kept, and the new local time
  is converted to UTC.
\<close>

definition Date_addDays :: "TimeZone \<Rightarrow> int \<Rightarrow> int \<Rightarrow> int" where
  "Date_addDays tz n t =
     (let local = LocalTime tz t;
          day = local div msPerDay;
          timeInDay = local mod msPerDay
      in UTC_time tz ((day + n) * msPerDay + timeInDay))"

text \<open>
  The rendering of a civil date as \<^verbatim>\<open>toISOString\<close> has it: four digits for the years
  0 to 9999, a sign and six digits otherwise.
\<close>

definition pad_number :: "nat \<Rightarrow> int \<Rightarrow> string" where
  "pad_number w n = padStart w CHR ''0'' (Number_toString n)"

definition iso_date :: "int \<times> int \<times> int \<Rightarrow> string" where
  "iso_date ymd =
     (case ymd of (y, m, d) \<Rightarrow>
        (if 0 \<le> y \<and> y \<le> 9999 then pad_number 4 y
         else if y < 0 then CHR ''-'' # pad_number 6 (- y)
         else CHR ''+'' # pad_number 6 y)
        @ ''-'' @ pad_number 2 m @ ''-'' @ pad_number 2 d)"

text \<open>\<^verbatim>\<open>date.toISOString().split('T')[0]\<close>: the UTC calendar date of a time value.\<close>

definition toISOString_date :: "int \<Rightarrow> string" where
  "toISOString_date t = iso_date (civil_from_days (t div msPerDay))"

text \<open>\<^verbatim>\<open>toISOString\<close> of an invalid date throws a \<^verbatim>\<open>RangeError\<close>.\<close>

datatype js_error = RangeError

definition getAdjustedDateForEntry ::
  "TimeZone \<Rightarrow> Eintrag \<Rightarrow> SplitEntry list \<Rightarrow> js_error + string" where
  "getAdjustedDateForEntry tz entry sps =
     (case find (\<lambda>p. firstId p = eid entry \<or> secondId p = eid entry) sps of
        None \<Rightarrow> Inr (date entry)
      | Some sp \<Rightarrow>
          if secondId sp = eid entry then
            (case Date_new tz (date entry @ ''T00:00:00'') of
               None \<Rightarrow> Inl RangeError
             | Some t \<Rightarrow> Inr (toISOString_date (Date_addDays tz 2 t)))
          else Inr (date entry))"

text \<open>
  The calendar date \<open>n\<close> days after the date a string denotes: what "shifted forward
  by \<open>n\<close> calendar days" means.
\<close>

definition shift_days :: "int \<Rightarrow> string \<Rightarrow> string option" where
  "shift_days n str =
     (case parseISODate str of
        None \<Rightarrow> None
      | Some (y, m, d) \<Rightarrow> Some (iso_date (civil_from_days (days_from_civil y m d + n))))"


section \<open>Definitions after the words of the specification\<close>

text \<open>
  \<open>clamp_day\<close> clamps a number of minutes to \<open>[0, 1435]\<close>, and \<open>nearest5\<close> is the
  multiple of 5 nearest to an integer (an integer is never halfway between two
  multiples of 5, so no tie arises). \<open>sorted_desc\<close> is: sorted by id in descending
  order.
\<close>

definition clamp_day :: "int \<Rightarrow> int" where
  "clamp_day t = max 0 (min t 1435)"

definition nearest5 :: "int \<Rightarrow> int" where
  "nearest5 c = 5 * ((c + 2) div 5)"

definition sorted_desc :: "Eintrag list \<Rightarrow> bool" where
  "sorted_desc es = sorted_wrt (\<lambda>a b. eid b \<le> eid a) es"

section \<open>The states the application reaches\<close>

text \<open>
  The application starts with no entries and no pairs (\<^verbatim>\<open>useState([])\<close>) and the
  counter at the clock reading; then the stored collections are loaded and the
  handlers run. \<^verbatim>\<open>startEditing\<close>, the step buttons and \<^verbatim>\<open>resetEditState\<close> change the
  four fields of the edit form only.
\<close>

inductive reachable :: "AppState \<Rightarrow> bool" where
  init: "reachable \<lparr>NEXT_ID = n, eintraege = [], splits = [], editingEntryId = None,
                    editMode = Mode_none, editingStart = [], editingEnde = []\<rparr>"
| load: "reachable s \<Longrightarrow> reachable (loadData savedEintraege savedSplits s)"
| addStart: "reachable s \<Longrightarrow> reachable (handleAddStart confirmed currentTime today s)"
| addEnde: "reachable s \<Longrightarrow> reachable (handleAddEnde currentTime s)"
| addFixed: "reachable s \<Longrightarrow> reachable (handleAddFixedNoonEntry confirmed d s)"
| saveEdit: "reachable s \<Longrightarrow> reachable (handleSaveEdit s)"
| deleteEntry: "reachable s \<Longrightarrow> reachable (handleDeleteEntry confirmed i s)"
| editForm: "reachable s \<Longrightarrow>
     reachable (s\<lparr>editingEntryId := a, editMode := m, editingStart := es, editingEnde := ee\<rparr>)"

section \<open>States used as examples\<close>

text \<open>A state with two open entries, reached by pressing Start twice.\<close>

definition two_open_state :: AppState where
  "two_open_state =
     \<lparr>NEXT_ID = 102,
      eintraege =
        [\<lparr>eid = 102, date = ''2024-01-01'', start = ''10:00'', ende = None\<rparr>,
         \<lparr>eid = 101, date = ''2024-01-01'', start = ''09:00'', ende = None\<rparr>],
      splits = [], editingEntryId = None, editMode = Mode_none,
      editingStart = [], editingEnde = []\<rparr>"

text \<open>
  A state with one pair (entries 11 and 12) and one entry of no pair, the start of
  entry 11 under edit.
\<close>

definition pair_state :: AppState where
  "pair_state =
     \<lparr>NEXT_ID = 12,
      eintraege =
        [\<lparr>eid = 12, date = ''2024-01-01'', start = ''00:00'', ende = Some ''00:10''\<rparr>,
         \<lparr>eid = 11, date = ''2024-01-01'', start = ''23:50'', ende = Some ''24:00''\<rparr>,
         \<lparr>eid = 5, date = ''2024-01-01'', start = ''09:00'', ende = Some ''10:00''\<rparr>],
      splits = [\<lparr>sid = ''11-12'', firstId = 11, secondId = 12\<rparr>],
      editingEntryId = Some 11, editMode = Mode_start,
      editingStart = ''00:05'', editingEnde = []\<rparr>"

text \<open>No id in the state is above the counter.\<close>

definition ids_below_counter :: "AppState \<Rightarrow> bool" where
  "ids_below_counter s =
     ((\<forall>e\<in>set (eintraege s). eid e \<le> NEXT_ID s) \<and>
      (\<forall>p\<in>set (splits s). firstId p \<le> NEXT_ID s \<and> secondId p \<le> NEXT_ID s))"

section \<open>Times of day: lemmas\<close>

lemma nat_digits_small: "n < 10 \<Longrightarrow> nat_digits n = [digit_char n]"
  by simp

lemma nat_digits_two:
  "10 \<le> n \<Longrightarrow> n < 100 \<Longrightarrow> nat_digits n = [digit_char (n div 10), digit_char (n mod 10)]"
  by (subst nat_digits.simps) simp

lemma digit_char_0: "digit_char 0 = CHR ''0''"
  by (simp add: digit_char_def)

lemma padStart_two_digits:
  assumes "0 \<le> n" "n < 100"
  shows "padStart 2 CHR ''0'' (Number_toString n) = two_digits n"
proof (cases "n < 10")
  case True
  with assms have "nat n < 10" "nat n div 10 = 0" "nat n mod 10 = nat n" by simp_all
  with assms show ?thesis
    by (simp add: padStart_def Number_toString_def two_digits_def digit_char_0
        nat_digits_small del: nat_digits.simps)
next
  case False
  with assms have "10 \<le> nat n" "nat n < 100" by simp_all
  with assms show ?thesis
    by (simp add: padStart_def Number_toString_def two_digits_def nat_digits_two
        del: nat_digits.simps)
qed

lemma digit_char_props:
  assumes "n < 10"
  shows "is_digit (digit_char n)" "digit_val (digit_char n) = int n"
proof -
  from assms have "n \<in> {0, 1, 2, 3, 4, 5, 6, 7, 8, 9::nat}" by auto
  then show "is_digit (digit_char n)" "digit_val (digit_char n) = int n"
    by (auto simp: is_digit_def digit_char_def digit_val_def)
qed

lemma is_digit_props:
  assumes "is_digit a"
  shows "a \<noteq> CHR '':''" "0 \<le> digit_val a" "digit_val a \<le> 9"
  using assms by (auto simp: is_digit_def digit_val_def)

lemma timeToMinutes_digits:
  assumes "is_digit a" "is_digit b" "is_digit d" "is_digit e"
  shows "timeToMinutes [a, b, CHR '':'', d, e] =
           Some ((10 * digit_val a + digit_val b) * 60 + (10 * digit_val d + digit_val e))"
  using assms is_digit_props(1)[of a] is_digit_props(1)[of b]
    is_digit_props(1)[of d] is_digit_props(1)[of e]
  by (simp add: timeToMinutes_def Number_str_def)

lemma valid_time_minutes:
  assumes "valid_time t"
  shows "\<exists>m. timeToMinutes t = Some m \<and> 0 \<le> m \<and> m < 1440"
  using assms
proof (induction t rule: valid_time.induct)
  case (1 a b c d e)
  then have dg: "is_digit a" "is_digit b" "is_digit d" "is_digit e" and c: "c = CHR '':''"
    and h: "10 * digit_val a + digit_val b < 24" and m: "10 * digit_val d + digit_val e < 60"
    by simp_all
  have "timeToMinutes [a, b, c, d, e] =
     Some ((10 * digit_val a + digit_val b) * 60 + (10 * digit_val d + digit_val e))"
    using timeToMinutes_digits[OF dg] c by simp
  moreover have "0 \<le> (10 * digit_val a + digit_val b) * 60 + (10 * digit_val d + digit_val e)"
    using is_digit_props(2)[OF dg(1)] is_digit_props(2)[OF dg(2)]
      is_digit_props(2)[OF dg(3)] is_digit_props(2)[OF dg(4)]
    by simp
  moreover have "(10 * digit_val a + digit_val b) * 60 + (10 * digit_val d + digit_val e) < 1440"
    using h m by simp
  ultimately show ?case by blast
qed simp_all

lemma Math_round_div5: "Math_round (real_of_int n / 5) = (2 * n + 5) div 10"
proof -
  have "real_of_int n / 5 + 1 / 2 = real_of_int (2 * n + 5) / real_of_int 10"
    by simp
  then show ?thesis
    unfolding Math_round_def by (simp only: floor_divide_of_int_eq)
qed

lemma two_digits_valid:
  assumes "0 \<le> n" "n < 100"
  shows "is_digit (digit_char (nat n div 10))" "is_digit (digit_char (nat n mod 10))"
    "10 * digit_val (digit_char (nat n div 10)) + digit_val (digit_char (nat n mod 10)) = n"
proof -
  from assms have a: "nat n div 10 < 10" and b: "nat n mod 10 < 10" by simp_all
  show "is_digit (digit_char (nat n div 10))" "is_digit (digit_char (nat n mod 10))"
    using digit_char_props(1)[OF a] digit_char_props(1)[OF b] by simp_all
  have "10 * int (nat n div 10) + int (nat n mod 10) = n"
    using assms by (simp add: zdiv_int zmod_int)
  then show "10 * digit_val (digit_char (nat n div 10)) + digit_val (digit_char (nat n mod 10)) = n"
    using digit_char_props(2)[OF a] digit_char_props(2)[OF b] by simp
qed

lemma hhmm_roundtrip:
  assumes "0 \<le> t" "t < 1440"
  shows "valid_time (hhmm t)" "timeToMinutes (hhmm t) = Some t"
proof -
  define A where "A = digit_char (nat (t div 60) div 10)"
  define B where "B = digit_char (nat (t div 60) mod 10)"
  define D where "D = digit_char (nat (t mod 60) div 10)"
  define E where "E = digit_char (nat (t mod 60) mod 10)"
  have eq: "hhmm t = [A, B, CHR '':'', D, E]"
    unfolding hhmm_def two_digits_def A_def B_def D_def E_def by simp
  from assms have h: "0 \<le> t div 60" "t div 60 < 24" and m: "0 \<le> t mod 60" "t mod 60 < 60"
    by simp_all
  from h have h100: "t div 60 < 100" by simp
  from m have m100: "t mod 60 < 100" by simp
  note H = two_digits_valid[OF h(1) h100, folded A_def B_def]
  note M = two_digits_valid[OF m(1) m100, folded D_def E_def]
  have hv: "10 * digit_val A + digit_val B < 24" using H(3) h(2) by (simp only:)
  have mv: "10 * digit_val D + digit_val E < 60" using M(3) m(2) by (simp only:)
  show "valid_time (hhmm t)"
    unfolding eq valid_time.simps using H(1,2) M(1,2) hv mv by blast
  have "timeToMinutes (hhmm t) = Some ((t div 60) * 60 + t mod 60)"
    unfolding eq timeToMinutes_digits[OF H(1) H(2) M(1) M(2)] H(3) M(3) by (rule refl)
  then show "timeToMinutes (hhmm t) = Some t" by simp
qed

lemma nearest5_aux:
  fixes c :: int
  assumes "0 \<le> c" "c \<le> 1435"
  shows "(5 * ((c + 2) div 5)) mod 5 = 0" "\<bar>5 * ((c + 2) div 5) - c\<bar> \<le> 2"
    "0 \<le> 5 * ((c + 2) div 5)" "5 * ((c + 2) div 5) \<le> 1435"
proof -
  have e: "5 * ((c + 2) div 5) = c + 2 - (c + 2) mod 5"
    by (simp add: minus_mod_eq_mult_div)
  have m: "0 \<le> (c + 2) mod 5" "(c + 2) mod 5 < 5" by simp_all
  show "(5 * ((c + 2) div 5)) mod 5 = 0" by simp
  show "\<bar>5 * ((c + 2) div 5) - c\<bar> \<le> 2" using e m by linarith
  show "0 \<le> 5 * ((c + 2) div 5)" using assms by simp
  have "(c + 2) div 5 \<le> 1437 div 5" using assms by (intro zdiv_mono1) simp_all
  then show "5 * ((c + 2) div 5) \<le> 1435" by simp
qed

lemma Math_round_times5: "Math_round (real_of_int c / 5) * 5 = 5 * ((c + 2) div 5)"
proof -
  have "(2 * c + 5) div 10 = (c + 2) div 5"
  proof -
    have "(2 * c + 5) div 10 = ((2 * c + 5) div 2) div 5"
      by (simp add: zdiv_zmult2_eq)
    also have "(2 * c + 5) div 2 = c + 2" by simp
    finally show ?thesis .
  qed
  then show ?thesis by (simp add: Math_round_div5)
qed

lemma minutesToTime_hhmm:
  "minutesToTime totalIn = hhmm (5 * ((max 0 (min totalIn 1435) + 2) div 5))"
proof -
  define c where "c = max 0 (min totalIn 1435)"
  define r where "r = 5 * ((c + 2) div 5)"
  have c: "0 \<le> c" "c \<le> 1435" by (simp_all add: c_def)
  have rr: "Math_round (real_of_int c / 5) * 5 = r"
    unfolding r_def by (rule Math_round_times5)
  have r: "0 \<le> r" "r \<le> 1435" using nearest5_aux[OF c] unfolding r_def by simp_all
  then have "0 \<le> r div 60" "r div 60 < 100" "0 \<le> r mod 60" "r mod 60 < 100" by simp_all
  then have "padStart 2 CHR ''0'' (Number_toString (r div 60)) = two_digits (r div 60)"
    "padStart 2 CHR ''0'' (Number_toString (r mod 60)) = two_digits (r mod 60)"
    by (simp_all add: padStart_two_digits)
  moreover have n: "(23 * 60 + 55 :: int) = 1435" by simp
  have "minutesToTime totalIn =
      padStart 2 CHR ''0'' (Number_toString (r div 60)) @ '':'' @
      padStart 2 CHR ''0'' (Number_toString (r mod 60))"
    unfolding minutesToTime_def Let_def n c_def[symmetric] rr by (rule refl)
  ultimately have "minutesToTime totalIn = hhmm r"
    by (simp add: hhmm_def)
  then show ?thesis by (simp add: r_def c_def)
qed


text \<open>
  Claim C9. For every integer input, \<^verbatim>\<open>minutesToTime\<close> clamps it to \<open>[0, 1435]\<close>, takes
  the nearest multiple of 5 and renders it as \<^verbatim>\<open>HH:MM\<close>: the rounded value is a
  multiple of 5 at most 2 away from the clamped one, it lies between 0 and 1435, so
  it is never 1440 and no re-mapping of 1440 is ever called for; the output is a
  valid time of day that reads back as the rounded value; and 1450 gives \<^verbatim>\<open>23:55\<close>,
  \<open>-5\<close> gives \<^verbatim>\<open>00:00\<close>.
\<close>

theorem minutesToTime_clamps_and_rounds:
  "minutesToTime totalIn = hhmm (nearest5 (clamp_day totalIn))
   \<and> 0 \<le> clamp_day totalIn \<and> clamp_day totalIn \<le> 1435
   \<and> nearest5 (clamp_day totalIn) mod 5 = 0
   \<and> \<bar>nearest5 (clamp_day totalIn) - clamp_day totalIn\<bar> \<le> 2
   \<and> 0 \<le> nearest5 (clamp_day totalIn) \<and> nearest5 (clamp_day totalIn) \<le> 1435
   \<and> nearest5 (clamp_day totalIn) \<noteq> 1440
   \<and> valid_time (minutesToTime totalIn)
   \<and> timeToMinutes (minutesToTime totalIn) = Some (nearest5 (clamp_day totalIn))
   \<and> minutesToTime 1450 = ''23:55''
   \<and> minutesToTime (- 5) = ''00:00''"
proof -
  define c where "c = clamp_day totalIn"
  define r where "r = nearest5 c"
  have c: "0 \<le> c" "c \<le> 1435" by (simp_all add: c_def clamp_day_def)
  have r: "r mod 5 = 0" "\<bar>r - c\<bar> \<le> 2" "0 \<le> r" "r \<le> 1435"
    using nearest5_aux[OF c] unfolding r_def nearest5_def by simp_all
  have eq: "minutesToTime totalIn = hhmm r"
    by (simp add: minutesToTime_hhmm r_def c_def nearest5_def clamp_day_def)
  have rt: "valid_time (hhmm r)" "timeToMinutes (hhmm r) = Some r"
    using hhmm_roundtrip[of r] r by simp_all
  have e1: "minutesToTime 1450 = ''23:55''"
    by (simp add: minutesToTime_hhmm hhmm_def two_digits_def digit_char_def)
  have e2: "minutesToTime (- 5) = ''00:00''"
    by (simp add: minutesToTime_hhmm hhmm_def two_digits_def digit_char_def)
  show ?thesis
    using c r eq rt e1 e2 unfolding c_def[symmetric] r_def[symmetric]
    by (simp add: c_def[symmetric] r_def[symmetric])
qed

lemma endMinutes_valid:
  assumes "valid_end e"
  shows "\<exists>m. endMinutes e = Some m \<and> 0 \<le> m \<and> m \<le> 1440"
proof (cases "e = ''24:00''")
  case True
  then show ?thesis by (simp add: endMinutes_def)
next
  case False
  with assms have "valid_time e" by (simp add: valid_end_def)
  from valid_time_minutes[OF this] False show ?thesis
    by (auto simp: endMinutes_def)
qed

lemma valid_time_nonempty: "valid_time t \<Longrightarrow> t \<noteq> []"
  by auto

lemma valid_end_nonempty: "valid_end e \<Longrightarrow> e \<noteq> []"
  by (auto simp: valid_end_def)

lemma getDurationMinutes_valid:
  assumes "e \<noteq> []" "timeToMinutes st = Some s" "endMinutes e = Some en"
  shows "getDurationMinutes st (Some e) = Some (max 0 (en - s))"
  using assms by (simp add: getDurationMinutes_def endMinutes_def Let_def)

text \<open>
  Claim C8. \<^verbatim>\<open>getDuration\<close> is \<^verbatim>\<open>-\<close> for an absent end; for a valid start and a
  valid end (the sentinel \<^verbatim>\<open>24:00\<close> counting as 1440) it is \<^verbatim>\<open>-\<close> when end minus
  start is at most 0 and the zero-padded \<^verbatim>\<open>HH:MM\<close> of the difference otherwise; with the
  four values the specification lists.
\<close>

theorem getDuration_spec:
  assumes "valid_time st" "valid_end e"
    and "timeToMinutes st = Some s" "endMinutes e = Some en"
  shows "getDuration st None = ''-''
    \<and> getDuration st (Some e) = (if en - s \<le> 0 then ''-'' else hhmm (en - s))
    \<and> getDuration ''09:00'' (Some ''17:30'') = ''08:30''
    \<and> getDuration ''23:00'' (Some ''24:00'') = ''01:00''
    \<and> getDuration ''09:00'' None = ''-''
    \<and> getDuration ''10:00'' (Some ''09:00'') = ''-''"
proof -
  have open_dash: "\<And>st. getDuration st None = ''-''"
    by (simp add: getDuration_def falsy_def)
  have ne: "e \<noteq> []" using assms(2) by (rule valid_end_nonempty)
  from valid_time_minutes[OF assms(1)] assms(3) have s: "0 \<le> s" "s < 1440" by auto
  from endMinutes_valid[OF assms(2)] assms(4) have en: "0 \<le> en" "en \<le> 1440" by auto
  have gen: "getDuration st (Some e) = (if en - s \<le> 0 then ''-'' else hhmm (en - s))"
  proof (cases "en - s \<le> 0")
    case True
    then show ?thesis
      using ne getDurationMinutes_valid[OF ne assms(3) assms(4)]
      by (simp add: getDuration_def falsy_def)
  next
    case False
    then have d: "0 < en - s" "en - s \<le> 1440" using s en by simp_all
    then have "0 \<le> (en - s) div 60" "(en - s) div 60 < 100"
      "0 \<le> (en - s) mod 60" "(en - s) mod 60 < 100" by simp_all
    then have "padStart 2 CHR ''0'' (Number_toString ((en - s) div 60)) = two_digits ((en - s) div 60)"
      "padStart 2 CHR ''0'' (Number_toString ((en - s) mod 60)) = two_digits ((en - s) mod 60)"
      by (simp_all add: padStart_two_digits)
    then show ?thesis
      using False ne getDurationMinutes_valid[OF ne assms(3) assms(4)]
      by (simp add: getDuration_def falsy_def Let_def hhmm_def)
  qed
  have ex: "getDuration ''09:00'' (Some ''17:30'') = ''08:30''"
    "getDuration ''23:00'' (Some ''24:00'') = ''01:00''"
    "getDuration ''10:00'' (Some ''09:00'') = ''-''"
    by (simp_all add: getDuration_def falsy_def getDurationMinutes_def timeToMinutes_def
        Number_str_def is_digit_def digit_val_def padStart_def Number_toString_def digit_char_def)
  show ?thesis using open_dash gen ex by simp
qed

theorem getDuration_spec_witness:
  "valid_time ''09:00'' \<and> valid_end ''17:30'' \<and> timeToMinutes ''09:00'' = Some 540
   \<and> endMinutes ''17:30'' = Some 1050 \<and> getDuration ''09:00'' (Some ''17:30'') = hhmm 510"
proof -
  have a: "valid_time ''09:00''" by (simp add: is_digit_def digit_val_def)
  have b: "valid_end ''17:30''" by (simp add: valid_end_def is_digit_def digit_val_def)
  have c: "timeToMinutes ''09:00'' = Some 540"
    by (simp add: timeToMinutes_def Number_str_def is_digit_def digit_val_def)
  have d: "endMinutes ''17:30'' = Some 1050"
    by (simp add: endMinutes_def timeToMinutes_def Number_str_def is_digit_def digit_val_def)
  from getDuration_spec[OF a b c d] a b c d show ?thesis by simp
qed

section \<open>The splitter\<close>

lemma createEntries_open:
  "ende base = None \<Longrightarrow>
   createEntriesWithOptionalSplit base n = (\<lparr>entries = [base], split = None\<rparr>, n)"
  by (simp add: createEntriesWithOptionalSplit_def)

lemma createEntries_fits:
  assumes "ende base = Some e" "e \<noteq> []" "timeToMinutes (start base) = Some s"
    "endMinutes e = Some en" "s \<le> en" "en \<le> 1440"
  shows "createEntriesWithOptionalSplit base n = (\<lparr>entries = [base], split = None\<rparr>, n)"
  using assms by (simp add: createEntriesWithOptionalSplit_def endMinutes_def Let_def)

lemma createEntries_crossing:
  assumes "ende base = Some e" "e \<noteq> []" "timeToMinutes (start base) = Some s"
    "endMinutes e = Some en" "en < s"
  shows "createEntriesWithOptionalSplit base n =
     (\<lparr>entries = [\<lparr>eid = n + 1, date = date base, start = start base, ende = Some ''24:00''\<rparr>,
                  \<lparr>eid = n + 2, date = date base, start = ''00:00'', ende = Some e\<rparr>],
       split = Some \<lparr>sid = Number_toString (n + 1) @ ''-'' @ Number_toString (n + 2),
                     firstId = n + 1, secondId = n + 2\<rparr>\<rparr>, n + 2)"
  using assms
  by (simp add: createEntriesWithOptionalSplit_def endMinutes_def Let_def generateId_def add.commute)

text \<open>
  Claim C1. For a candidate with a valid start: if its end is absent, the splitter
  returns the candidate itself, no pair, and the id counter as it was; if its end is
  valid, the end in minutes is at most 1440 and either it is at least the start, and
  again the candidate is returned unchanged with no pair, or it is below the start,
  and the result is two entries with the next two ids of the counter, the first from
  the candidate's start to \<^verbatim>\<open>24:00\<close>, the second from \<^verbatim>\<open>00:00\<close> to the candidate's end,
  both with the candidate's date, with a pair whose id is the two ids joined by a
  hyphen; the candidate's id is then not among them (it is at most the counter).
  The candidate is a value and cannot be changed by the function.
\<close>

theorem split_unchanged_or_two_halves:
  assumes "valid_time (start base)"
  shows "\<exists>s. timeToMinutes (start base) = Some s \<and>
     (case ende base of
        None \<Rightarrow>
          createEntriesWithOptionalSplit base n = (\<lparr>entries = [base], split = None\<rparr>, n)
      | Some e \<Rightarrow>
          valid_end e \<longrightarrow>
          (\<exists>en. endMinutes e = Some en \<and> en \<le> 1440 \<and>
             (if s \<le> en
              then createEntriesWithOptionalSplit base n = (\<lparr>entries = [base], split = None\<rparr>, n)
              else createEntriesWithOptionalSplit base n =
                (\<lparr>entries =
                    [\<lparr>eid = n + 1, date = date base, start = start base, ende = Some ''24:00''\<rparr>,
                     \<lparr>eid = n + 2, date = date base, start = ''00:00'', ende = Some e\<rparr>],
                  split = Some \<lparr>sid = Number_toString (n + 1) @ ''-'' @ Number_toString (n + 2),
                                firstId = n + 1, secondId = n + 2\<rparr>\<rparr>, n + 2)
                \<and> (eid base \<le> n \<longrightarrow> n + 1 \<noteq> eid base \<and> n + 2 \<noteq> eid base))))"
proof -
  from valid_time_minutes[OF assms] obtain s where s: "timeToMinutes (start base) = Some s"
    by blast
  show ?thesis
  proof (cases "ende base")
    case None
    with s createEntries_open[OF None] show ?thesis by simp
  next
    case (Some e)
    have "valid_end e \<longrightarrow>
          (\<exists>en. endMinutes e = Some en \<and> en \<le> 1440 \<and>
             (if s \<le> en
              then createEntriesWithOptionalSplit base n = (\<lparr>entries = [base], split = None\<rparr>, n)
              else createEntriesWithOptionalSplit base n =
                (\<lparr>entries =
                    [\<lparr>eid = n + 1, date = date base, start = start base, ende = Some ''24:00''\<rparr>,
                     \<lparr>eid = n + 2, date = date base, start = ''00:00'', ende = Some e\<rparr>],
                  split = Some \<lparr>sid = Number_toString (n + 1) @ ''-'' @ Number_toString (n + 2),
                                firstId = n + 1, secondId = n + 2\<rparr>\<rparr>, n + 2)
                \<and> (eid base \<le> n \<longrightarrow> n + 1 \<noteq> eid base \<and> n + 2 \<noteq> eid base)))"
    proof
      assume ve: "valid_end e"
      from endMinutes_valid[OF ve] obtain en where en: "endMinutes e = Some en" "en \<le> 1440"
        by blast
      have ne: "e \<noteq> []" using ve by (rule valid_end_nonempty)
      show "\<exists>en. endMinutes e = Some en \<and> en \<le> 1440 \<and>
             (if s \<le> en
              then createEntriesWithOptionalSplit base n = (\<lparr>entries = [base], split = None\<rparr>, n)
              else createEntriesWithOptionalSplit base n =
                (\<lparr>entries =
                    [\<lparr>eid = n + 1, date = date base, start = start base, ende = Some ''24:00''\<rparr>,
                     \<lparr>eid = n + 2, date = date base, start = ''00:00'', ende = Some e\<rparr>],
                  split = Some \<lparr>sid = Number_toString (n + 1) @ ''-'' @ Number_toString (n + 2),
                                firstId = n + 1, secondId = n + 2\<rparr>\<rparr>, n + 2)
                \<and> (eid base \<le> n \<longrightarrow> n + 1 \<noteq> eid base \<and> n + 2 \<noteq> eid base))"
      proof (cases "s \<le> en")
        case True
        with createEntries_fits[OF Some ne s en(1) True en(2)] en show ?thesis by simp
      next
        case False
        then have "en < s" by simp
        from createEntries_crossing[OF Some ne s en(1) this] en False show ?thesis by simp
      qed
    qed
    with s Some show ?thesis by simp
  qed
qed

lemma time_2350: "timeToMinutes ''23:50'' = Some 1430"
  by (simp add: timeToMinutes_def Number_str_def is_digit_def digit_val_def)

lemma end_0010: "endMinutes ''00:10'' = Some 10"
  by (simp add: endMinutes_def timeToMinutes_def Number_str_def is_digit_def digit_val_def)

theorem split_unchanged_or_two_halves_witness:
  "valid_time (start \<lparr>eid = 5, date = ''2024-01-01'', start = ''23:50'', ende = Some ''00:10''\<rparr>)
   \<and> valid_end ''00:10''
   \<and> createEntriesWithOptionalSplit
        \<lparr>eid = 5, date = ''2024-01-01'', start = ''23:50'', ende = Some ''00:10''\<rparr> 100 =
      (\<lparr>entries =
          [\<lparr>eid = 101, date = ''2024-01-01'', start = ''23:50'', ende = Some ''24:00''\<rparr>,
           \<lparr>eid = 102, date = ''2024-01-01'', start = ''00:00'', ende = Some ''00:10''\<rparr>],
        split = Some \<lparr>sid = ''101-102'', firstId = 101, secondId = 102\<rparr>\<rparr>, 102)"
proof -
  define b where "b = \<lparr>eid = 5, date = ''2024-01-01'', start = ''23:50'', ende = Some ''00:10''\<rparr>"
  have v: "valid_time (start b)" by (simp add: b_def is_digit_def digit_val_def)
  have ve: "valid_end ''00:10''" by (simp add: valid_end_def is_digit_def digit_val_def)
  have ns: "Number_toString 101 = ''101''" "Number_toString 102 = ''102''"
    by (simp_all add: Number_toString_def digit_char_def)
  from split_unchanged_or_two_halves[OF v, of 100] ve
  have "createEntriesWithOptionalSplit b 100 =
      (\<lparr>entries =
          [\<lparr>eid = 101, date = ''2024-01-01'', start = ''23:50'', ende = Some ''24:00''\<rparr>,
           \<lparr>eid = 102, date = ''2024-01-01'', start = ''00:00'', ende = Some ''00:10''\<rparr>],
        split = Some \<lparr>sid = ''101-102'', firstId = 101, secondId = 102\<rparr>\<rparr>, 102)"
    by (simp add: b_def time_2350 end_0010 ns)
  with v ve show ?thesis by (simp add: b_def)
qed

lemma time_0000: "timeToMinutes ''00:00'' = Some 0"
  by (simp add: timeToMinutes_def Number_str_def is_digit_def digit_val_def)

lemma end_2400: "endMinutes ''24:00'' = Some 1440"
  by (simp add: endMinutes_def)

lemma buildBaseFromSplit_fields:
  "buildBaseFromSplit f g k =
     (\<lparr>eid = k + 1, date = date f, start = start f, ende = ende g\<rparr>, k + 1)"
  by (simp add: buildBaseFromSplit_def generateId_def)

text \<open>
  Claim C2. For a candidate with valid times whose end in minutes \<open>en\<close> is below its
  start \<open>s\<close>, the splitter returns two entries and their pair: the first half runs
  from \<open>s\<close> to the sentinel 1440, the second from 0 to \<open>en\<close>, so they meet at
  midnight; their durations are \<open>1440 - s\<close> and \<open>en\<close>, the two parts of the original
  span; and \<^verbatim>\<open>buildBaseFromSplit\<close> on the two halves has the candidate's start and end
  and the first half's date.
\<close>

theorem split_halves_contiguous_and_merge:
  assumes "valid_time (start base)" and "ende base = Some e" and "valid_end e"
    and "timeToMinutes (start base) = Some s" and "endMinutes e = Some en" and "en < s"
  shows "\<exists>f g sp.
      createEntriesWithOptionalSplit base n = (\<lparr>entries = [f, g], split = Some sp\<rparr>, n + 2)
    \<and> firstId sp = eid f \<and> secondId sp = eid g
    \<and> timeToMinutes (start f) = Some s
    \<and> ende f = Some ''24:00'' \<and> endMinutes ''24:00'' = Some 1440
    \<and> timeToMinutes (start g) = Some 0
    \<and> ende g = Some e
    \<and> getDurationMinutes (start f) (ende f) = Some (1440 - s)
    \<and> getDurationMinutes (start g) (ende g) = Some en
    \<and> 0 \<le> 1440 - s \<and> 0 \<le> en
    \<and> start (fst (buildBaseFromSplit f g k)) = start base
    \<and> ende (fst (buildBaseFromSplit f g k)) = ende base
    \<and> date (fst (buildBaseFromSplit f g k)) = date f"
proof -
  define f where "f = \<lparr>eid = n + 1, date = date base, start = start base, ende = Some ''24:00''\<rparr>"
  define g where "g = \<lparr>eid = n + 2, date = date base, start = ''00:00'', ende = Some e\<rparr>"
  define sp where "sp = \<lparr>sid = Number_toString (n + 1) @ ''-'' @ Number_toString (n + 2),
                     firstId = n + 1, secondId = n + 2\<rparr>"
  have ne: "e \<noteq> []" using assms(3) by (rule valid_end_nonempty)
  from valid_time_minutes[OF assms(1)] assms(4) have s: "0 \<le> s" "s < 1440" by auto
  from endMinutes_valid[OF assms(3)] assms(5) have en: "0 \<le> en" "en \<le> 1440" by auto
  have r: "createEntriesWithOptionalSplit base n = (\<lparr>entries = [f, g], split = Some sp\<rparr>, n + 2)"
    unfolding f_def g_def sp_def
    by (rule createEntries_crossing[OF assms(2) ne assms(4) assms(5) assms(6)])
  have df: "getDurationMinutes (start f) (ende f) = Some (1440 - s)"
    using getDurationMinutes_valid[of "''24:00''" "start base" s 1440] assms(4) s
    by (simp add: f_def end_2400)
  have dg: "getDurationMinutes (start g) (ende g) = Some en"
    using getDurationMinutes_valid[OF ne time_0000 assms(5)] en by (simp add: g_def)
  have m: "start (fst (buildBaseFromSplit f g k)) = start base"
    "ende (fst (buildBaseFromSplit f g k)) = ende base"
    "date (fst (buildBaseFromSplit f g k)) = date f"
    by (simp_all add: buildBaseFromSplit_fields f_def g_def assms(2))
  have ids: "firstId sp = eid f" "secondId sp = eid g"
    by (simp_all add: sp_def f_def g_def)
  have st: "timeToMinutes (start f) = Some s" "ende f = Some ''24:00''"
    "timeToMinutes (start g) = Some 0" "ende g = Some e"
    by (simp_all add: f_def g_def assms(4) time_0000)
  have nn: "0 \<le> 1440 - s" using s by simp
  show ?thesis
    by (rule exI[of _ f], rule exI[of _ g], rule exI[of _ sp])
      (use r ids st end_2400 df dg nn en m in blast)
qed

theorem split_halves_contiguous_and_merge_witness:
  "valid_time ''22:15'' \<and> valid_end ''01:30''
   \<and> timeToMinutes ''22:15'' = Some 1335 \<and> endMinutes ''01:30'' = Some 90 \<and> (90::int) < 1335
   \<and> (\<exists>f g sp.
        createEntriesWithOptionalSplit
          \<lparr>eid = 7, date = ''2024-05-31'', start = ''22:15'', ende = Some ''01:30''\<rparr> 40 =
          (\<lparr>entries = [f, g], split = Some sp\<rparr>, 42)
      \<and> getDurationMinutes (start f) (ende f) = Some 105
      \<and> getDurationMinutes (start g) (ende g) = Some 90
      \<and> start (fst (buildBaseFromSplit f g 42)) = ''22:15''
      \<and> ende (fst (buildBaseFromSplit f g 42)) = Some ''01:30'')"
proof -
  define b where "b = \<lparr>eid = 7, date = ''2024-05-31'', start = ''22:15'', ende = Some ''01:30''\<rparr>"
  have v: "valid_time (start b)" by (simp add: b_def is_digit_def digit_val_def)
  have e: "ende b = Some ''01:30''" by (simp add: b_def)
  have ve: "valid_end ''01:30''" by (simp add: valid_end_def is_digit_def digit_val_def)
  have ts: "timeToMinutes (start b) = Some 1335"
    by (simp add: b_def timeToMinutes_def Number_str_def is_digit_def digit_val_def)
  have te: "endMinutes ''01:30'' = Some 90"
    by (simp add: endMinutes_def timeToMinutes_def Number_str_def is_digit_def digit_val_def)
  have lt: "(90::int) < 1335" by simp
  from split_halves_contiguous_and_merge[OF v e ve ts te lt, of 40 42]
  obtain f g sp where
    "createEntriesWithOptionalSplit b 40 = (\<lparr>entries = [f, g], split = Some sp\<rparr>, 40 + 2)"
    "getDurationMinutes (start f) (ende f) = Some (1440 - 1335)"
    "getDurationMinutes (start g) (ende g) = Some 90"
    "start (fst (buildBaseFromSplit f g 42)) = start b"
    "ende (fst (buildBaseFromSplit f g 42)) = ende b"
    by blast
  then have "\<exists>f g sp. createEntriesWithOptionalSplit b 40 = (\<lparr>entries = [f, g], split = Some sp\<rparr>, 42)
      \<and> getDurationMinutes (start f) (ende f) = Some 105
      \<and> getDurationMinutes (start g) (ende g) = Some 90
      \<and> start (fst (buildBaseFromSplit f g 42)) = ''22:15''
      \<and> ende (fst (buildBaseFromSplit f g 42)) = Some ''01:30''"
    by (auto simp: b_def)
  with v ve ts te show ?thesis by (simp add: b_def)
qed

section \<open>Blocked edits and deletion\<close>

lemma set_sortByIdDesc: "set (sortByIdDesc xs) = set xs"
  by (simp add: sortByIdDesc_def)

lemma find_split_None:
  "find (\<lambda>p. firstId p = i \<or> secondId p = i) sps = None \<longleftrightarrow>
   (\<forall>q\<in>set sps. firstId q \<noteq> i \<and> secondId q \<noteq> i)"
  by (auto simp: find_None_iff)

lemma find_split_Some:
  assumes "find (\<lambda>p. firstId p = i \<or> secondId p = i) sps = Some p"
  shows "p \<in> set sps" "firstId p = i \<or> secondId p = i"
  using assms by (auto simp: find_Some_iff)

text \<open>
  Claim C7. \<^verbatim>\<open>handleSaveEdit\<close> returns the state as it was when the start is being
  edited and the edited start is empty, and when the end is being edited and the
  edited end is empty; and when no entry has the id under edit, the entries, the
  pairs and the id counter are as they were.
\<close>

theorem handleSaveEdit_blocked:
  "(editMode s = Mode_start \<and> editingStart s = [] \<longrightarrow> handleSaveEdit s = s)
   \<and> (editMode s = Mode_ende \<and> editingEnde s = [] \<longrightarrow> handleSaveEdit s = s)
   \<and> ((\<forall>e\<in>set (eintraege s). Some (eid e) \<noteq> editingEntryId s) \<longrightarrow>
        eintraege (handleSaveEdit s) = eintraege s
        \<and> splits (handleSaveEdit s) = splits s
        \<and> NEXT_ID (handleSaveEdit s) = NEXT_ID s)"
proof (intro conjI impI)
  assume "editMode s = Mode_start \<and> editingStart s = []"
  then show "handleSaveEdit s = s"
    by (simp add: handleSaveEdit_def split: option.splits)
next
  assume "editMode s = Mode_ende \<and> editingEnde s = []"
  then show "handleSaveEdit s = s"
    by (simp add: handleSaveEdit_def split: option.splits)
next
  assume a: "\<forall>e\<in>set (eintraege s). Some (eid e) \<noteq> editingEntryId s"
  have nf: "find (\<lambda>e. eid e = i) (eintraege s) = None" if "editingEntryId s = Some i" for i
    using a that by (auto simp: find_None_iff)
  have "handleSaveEdit s = s \<or> handleSaveEdit s = resetEditState s"
    by (cases "editingEntryId s") (simp_all add: handleSaveEdit_def nf)
  then show "eintraege (handleSaveEdit s) = eintraege s"
    "splits (handleSaveEdit s) = splits s"
    "NEXT_ID (handleSaveEdit s) = NEXT_ID s"
    by (auto simp: resetEditState_def)
qed


theorem handleSaveEdit_blocked_witness:
  "handleSaveEdit
     \<lparr>NEXT_ID = 10,
      eintraege = [\<lparr>eid = 3, date = ''2024-01-01'', start = ''09:00'', ende = Some ''10:00''\<rparr>],
      splits = [], editingEntryId = Some 3, editMode = Mode_start,
      editingStart = [], editingEnde = []\<rparr> =
     \<lparr>NEXT_ID = 10,
      eintraege = [\<lparr>eid = 3, date = ''2024-01-01'', start = ''09:00'', ende = Some ''10:00''\<rparr>],
      splits = [], editingEntryId = Some 3, editMode = Mode_start,
      editingStart = [], editingEnde = []\<rparr>
   \<and> handleSaveEdit
     \<lparr>NEXT_ID = 10,
      eintraege = [\<lparr>eid = 3, date = ''2024-01-01'', start = ''09:00'', ende = Some ''10:00''\<rparr>],
      splits = [], editingEntryId = Some 3, editMode = Mode_ende,
      editingStart = [], editingEnde = []\<rparr> =
     \<lparr>NEXT_ID = 10,
      eintraege = [\<lparr>eid = 3, date = ''2024-01-01'', start = ''09:00'', ende = Some ''10:00''\<rparr>],
      splits = [], editingEntryId = Some 3, editMode = Mode_ende,
      editingStart = [], editingEnde = []\<rparr>
   \<and> eintraege (handleSaveEdit
     \<lparr>NEXT_ID = 10,
      eintraege = [\<lparr>eid = 3, date = ''2024-01-01'', start = ''09:00'', ende = Some ''10:00''\<rparr>],
      splits = [], editingEntryId = Some 4, editMode = Mode_start,
      editingStart = ''08:00'', editingEnde = []\<rparr>) =
     [\<lparr>eid = 3, date = ''2024-01-01'', start = ''09:00'', ende = Some ''10:00''\<rparr>]
   \<and> splits (handleSaveEdit
     \<lparr>NEXT_ID = 10,
      eintraege = [\<lparr>eid = 3, date = ''2024-01-01'', start = ''09:00'', ende = Some ''10:00''\<rparr>],
      splits = [], editingEntryId = Some 4, editMode = Mode_start,
      editingStart = ''08:00'', editingEnde = []\<rparr>) = []"
  using
    handleSaveEdit_blocked[of "\<lparr>NEXT_ID = 10,
      eintraege = [\<lparr>eid = 3, date = ''2024-01-01'', start = ''09:00'', ende = Some ''10:00''\<rparr>],
      splits = [], editingEntryId = Some 3, editMode = Mode_start,
      editingStart = [], editingEnde = []\<rparr>"]
    handleSaveEdit_blocked[of "\<lparr>NEXT_ID = 10,
      eintraege = [\<lparr>eid = 3, date = ''2024-01-01'', start = ''09:00'', ende = Some ''10:00''\<rparr>],
      splits = [], editingEntryId = Some 3, editMode = Mode_ende,
      editingStart = [], editingEnde = []\<rparr>"]
    handleSaveEdit_blocked[of "\<lparr>NEXT_ID = 10,
      eintraege = [\<lparr>eid = 3, date = ''2024-01-01'', start = ''09:00'', ende = Some ''10:00''\<rparr>],
      splits = [], editingEntryId = Some 4, editMode = Mode_start,
      editingStart = ''08:00'', editingEnde = []\<rparr>"]
  by simp

text \<open>
  Claim C4. With \<open>p\<close> the pair that the lookup of \<^verbatim>\<open>handleDeleteEntry\<close> finds for the
  id (the first pair of the collection that names it, the only one under the
  invariant of the data model), the confirmed deletion keeps exactly the entries
  that are neither member of \<open>p\<close> and exactly the pairs whose id is not that of
  \<open>p\<close>: no entry has a member id afterwards, \<open>p\<close> is gone, and when \<open>p\<close> was the
  only pair naming the id, no pair names it afterwards. When no pair names the id,
  exactly the entries with another id are kept and the pairs are as they were.
\<close>

theorem handleDeleteEntry_cascades:
  "(let s' = handleDeleteEntry True i s in
     (find (\<lambda>p. firstId p = i \<or> secondId p = i) (splits s) = Some p \<longrightarrow>
        p \<in> set (splits s) \<and> (firstId p = i \<or> secondId p = i)
        \<and> eintraege s' =
            sortByIdDesc (filter (\<lambda>e. eid e \<noteq> firstId p \<and> eid e \<noteq> secondId p) (eintraege s))
        \<and> splits s' = filter (\<lambda>q. sid q \<noteq> sid p) (splits s)
        \<and> (\<forall>e\<in>set (eintraege s'). eid e \<noteq> firstId p \<and> eid e \<noteq> secondId p \<and> eid e \<noteq> i)
        \<and> set (eintraege s') = {e \<in> set (eintraege s). eid e \<noteq> firstId p \<and> eid e \<noteq> secondId p}
        \<and> p \<notin> set (splits s')
        \<and> ((\<forall>q\<in>set (splits s). firstId q = i \<or> secondId q = i \<longrightarrow> q = p) \<longrightarrow>
             (\<forall>q\<in>set (splits s'). firstId q \<noteq> i \<and> secondId q \<noteq> i)))
     \<and> ((\<forall>q\<in>set (splits s). firstId q \<noteq> i \<and> secondId q \<noteq> i) \<longrightarrow>
        eintraege s' = sortByIdDesc (filter (\<lambda>e. eid e \<noteq> i) (eintraege s))
        \<and> set (eintraege s') = {e \<in> set (eintraege s). eid e \<noteq> i}
        \<and> splits s' = splits s))"
proof -
  define s' where "s' = handleDeleteEntry True i s"
  have A: "p \<in> set (splits s) \<and> (firstId p = i \<or> secondId p = i)
        \<and> eintraege s' =
            sortByIdDesc (filter (\<lambda>e. eid e \<noteq> firstId p \<and> eid e \<noteq> secondId p) (eintraege s))
        \<and> splits s' = filter (\<lambda>q. sid q \<noteq> sid p) (splits s)
        \<and> (\<forall>e\<in>set (eintraege s'). eid e \<noteq> firstId p \<and> eid e \<noteq> secondId p \<and> eid e \<noteq> i)
        \<and> set (eintraege s') = {e \<in> set (eintraege s). eid e \<noteq> firstId p \<and> eid e \<noteq> secondId p}
        \<and> p \<notin> set (splits s')
        \<and> ((\<forall>q\<in>set (splits s). firstId q = i \<or> secondId q = i \<longrightarrow> q = p) \<longrightarrow>
             (\<forall>q\<in>set (splits s'). firstId q \<noteq> i \<and> secondId q \<noteq> i))"
    if f: "find (\<lambda>p. firstId p = i \<or> secondId p = i) (splits s) = Some p"
  proof -
    note m = find_split_Some[OF f]
    have e: "eintraege s' =
        sortByIdDesc (filter (\<lambda>e. eid e \<noteq> firstId p \<and> eid e \<noteq> secondId p) (eintraege s))"
      using f by (simp add: s'_def handleDeleteEntry_def Let_def updateSplits_def
          updateEintraege_def resetEditState_def)
    have sp: "splits s' = filter (\<lambda>q. sid q \<noteq> sid p) (splits s)"
      using f by (simp add: s'_def handleDeleteEntry_def Let_def updateSplits_def
          updateEintraege_def resetEditState_def)
    have se: "set (eintraege s') =
        {e \<in> set (eintraege s). eid e \<noteq> firstId p \<and> eid e \<noteq> secondId p}"
      unfolding e set_sortByIdDesc by auto
    have gone: "\<forall>e\<in>set (eintraege s'). eid e \<noteq> firstId p \<and> eid e \<noteq> secondId p \<and> eid e \<noteq> i"
      unfolding se using m(2) by auto
    have pg: "p \<notin> set (splits s')" unfolding sp by simp
    have u: "\<forall>q\<in>set (splits s'). firstId q \<noteq> i \<and> secondId q \<noteq> i"
      if "\<forall>q\<in>set (splits s). firstId q = i \<or> secondId q = i \<longrightarrow> q = p"
      using that unfolding sp by auto
    show ?thesis using m e sp se gone pg u by blast
  qed
  have B: "eintraege s' = sortByIdDesc (filter (\<lambda>e. eid e \<noteq> i) (eintraege s))
        \<and> set (eintraege s') = {e \<in> set (eintraege s). eid e \<noteq> i}
        \<and> splits s' = splits s"
    if n: "\<forall>q\<in>set (splits s). firstId q \<noteq> i \<and> secondId q \<noteq> i"
  proof -
    from n have f: "find (\<lambda>p. firstId p = i \<or> secondId p = i) (splits s) = None"
      by (simp add: find_split_None)
    have e: "eintraege s' = sortByIdDesc (filter (\<lambda>e. eid e \<noteq> i) (eintraege s))"
      using f by (simp add: s'_def handleDeleteEntry_def Let_def updateSplits_def
          updateEintraege_def resetEditState_def)
    have sp: "splits s' = splits s"
      using f by (simp add: s'_def handleDeleteEntry_def Let_def updateSplits_def
          updateEintraege_def resetEditState_def)
    have "set (eintraege s') = {e \<in> set (eintraege s). eid e \<noteq> i}"
      unfolding e set_sortByIdDesc by auto
    with e sp show ?thesis by simp
  qed
  show ?thesis
    unfolding Let_def s'_def[symmetric] using A B by blast
qed


theorem handleDeleteEntry_cascades_witness:
  "find (\<lambda>p. firstId p = 12 \<or> secondId p = 12) [\<lparr>sid = ''11-12'', firstId = 11, secondId = 12\<rparr>]
     = Some \<lparr>sid = ''11-12'', firstId = 11, secondId = 12\<rparr>
   \<and> eintraege (handleDeleteEntry True 12
        \<lparr>NEXT_ID = 12,
         eintraege =
           [\<lparr>eid = 12, date = ''2024-01-01'', start = ''00:00'', ende = Some ''00:10''\<rparr>,
            \<lparr>eid = 11, date = ''2024-01-01'', start = ''23:50'', ende = Some ''24:00''\<rparr>,
            \<lparr>eid = 5, date = ''2024-01-01'', start = ''09:00'', ende = Some ''10:00''\<rparr>],
         splits = [\<lparr>sid = ''11-12'', firstId = 11, secondId = 12\<rparr>],
         editingEntryId = None, editMode = Mode_none, editingStart = [], editingEnde = []\<rparr>)
     = [\<lparr>eid = 5, date = ''2024-01-01'', start = ''09:00'', ende = Some ''10:00''\<rparr>]
   \<and> splits (handleDeleteEntry True 12
        \<lparr>NEXT_ID = 12,
         eintraege =
           [\<lparr>eid = 12, date = ''2024-01-01'', start = ''00:00'', ende = Some ''00:10''\<rparr>,
            \<lparr>eid = 11, date = ''2024-01-01'', start = ''23:50'', ende = Some ''24:00''\<rparr>,
            \<lparr>eid = 5, date = ''2024-01-01'', start = ''09:00'', ende = Some ''10:00''\<rparr>],
         splits = [\<lparr>sid = ''11-12'', firstId = 11, secondId = 12\<rparr>],
         editingEntryId = None, editMode = Mode_none, editingStart = [], editingEnde = []\<rparr>)
     = []
   \<and> eintraege (handleDeleteEntry True 5
        \<lparr>NEXT_ID = 12,
         eintraege =
           [\<lparr>eid = 12, date = ''2024-01-01'', start = ''00:00'', ende = Some ''00:10''\<rparr>,
            \<lparr>eid = 11, date = ''2024-01-01'', start = ''23:50'', ende = Some ''24:00''\<rparr>,
            \<lparr>eid = 5, date = ''2024-01-01'', start = ''09:00'', ende = Some ''10:00''\<rparr>],
         splits = [\<lparr>sid = ''11-12'', firstId = 11, secondId = 12\<rparr>],
         editingEntryId = None, editMode = Mode_none, editingStart = [], editingEnde = []\<rparr>)
     = [\<lparr>eid = 12, date = ''2024-01-01'', start = ''00:00'', ende = Some ''00:10''\<rparr>,
        \<lparr>eid = 11, date = ''2024-01-01'', start = ''23:50'', ende = Some ''24:00''\<rparr>]
   \<and> splits (handleDeleteEntry True 5
        \<lparr>NEXT_ID = 12,
         eintraege =
           [\<lparr>eid = 12, date = ''2024-01-01'', start = ''00:00'', ende = Some ''00:10''\<rparr>,
            \<lparr>eid = 11, date = ''2024-01-01'', start = ''23:50'', ende = Some ''24:00''\<rparr>,
            \<lparr>eid = 5, date = ''2024-01-01'', start = ''09:00'', ende = Some ''10:00''\<rparr>],
         splits = [\<lparr>sid = ''11-12'', firstId = 11, secondId = 12\<rparr>],
         editingEntryId = None, editMode = Mode_none, editingStart = [], editingEnde = []\<rparr>)
     = [\<lparr>sid = ''11-12'', firstId = 11, secondId = 12\<rparr>]"
  using
    handleDeleteEntry_cascades[of 12
      "\<lparr>NEXT_ID = 12,
         eintraege =
           [\<lparr>eid = 12, date = ''2024-01-01'', start = ''00:00'', ende = Some ''00:10''\<rparr>,
            \<lparr>eid = 11, date = ''2024-01-01'', start = ''23:50'', ende = Some ''24:00''\<rparr>,
            \<lparr>eid = 5, date = ''2024-01-01'', start = ''09:00'', ende = Some ''10:00''\<rparr>],
         splits = [\<lparr>sid = ''11-12'', firstId = 11, secondId = 12\<rparr>],
         editingEntryId = None, editMode = Mode_none, editingStart = [], editingEnde = []\<rparr>"
      "\<lparr>sid = ''11-12'', firstId = 11, secondId = 12\<rparr>"]
    handleDeleteEntry_cascades[of 5
      "\<lparr>NEXT_ID = 12,
         eintraege =
           [\<lparr>eid = 12, date = ''2024-01-01'', start = ''00:00'', ende = Some ''00:10''\<rparr>,
            \<lparr>eid = 11, date = ''2024-01-01'', start = ''23:50'', ende = Some ''24:00''\<rparr>,
            \<lparr>eid = 5, date = ''2024-01-01'', start = ''09:00'', ende = Some ''10:00''\<rparr>],
         splits = [\<lparr>sid = ''11-12'', firstId = 11, secondId = 12\<rparr>],
         editingEntryId = None, editMode = Mode_none, editingStart = [], editingEnde = []\<rparr>"
      "\<lparr>sid = ''11-12'', firstId = 11, secondId = 12\<rparr>"]
  by (simp add: Let_def sortByIdDesc_def)

section \<open>Editing one half of a pair\<close>

lemma createEntries_ids:
  "\<forall>e\<in>set (entries (fst (createEntriesWithOptionalSplit b k))). eid e = eid b \<or> k < eid e"
  by (simp add: createEntriesWithOptionalSplit_def Let_def generateId_def
      split: option.splits)

lemma createEntries_split_ids:
  "split (fst (createEntriesWithOptionalSplit b k)) = Some sp \<Longrightarrow>
   k < firstId sp \<and> k < secondId sp"
  by (auto simp: createEntriesWithOptionalSplit_def Let_def generateId_def
      split: option.splits if_splits)

lemma handleSaveEdit_both_halves:
  assumes "editingEntryId s = Some i" and "i \<noteq> 0"
    and "\<not> (editMode s = Mode_start \<and> editingStart s = [])"
    and "\<not> (editMode s = Mode_ende \<and> editingEnde s = [])"
    and "find (\<lambda>e. eid e = i) (eintraege s) = Some original"
    and "find (\<lambda>p. firstId p = eid original \<or> secondId p = eid original) (splits s) = Some p"
    and "find (\<lambda>e. eid e = firstId p) (eintraege s) = Some f"
    and "find (\<lambda>e. eid e = secondId p) (eintraege s) = Some g"
    and "merged = \<lparr>eid = NEXT_ID s + 1, date = date f, start = start f, ende = ende g\<rparr>"
    and "base = (if editMode s = Mode_start then merged\<lparr>start := editingStart s\<rparr>
                 else merged\<lparr>ende := Some (editingEnde s)\<rparr>)"
    and "r = createEntriesWithOptionalSplit base (NEXT_ID s + 1)"
  shows "eintraege (handleSaveEdit s) =
           sortByIdDesc (filter (\<lambda>e. eid e \<noteq> firstId p \<and> eid e \<noteq> secondId p) (eintraege s)
                         @ entries (fst r))"
    and "splits (handleSaveEdit s) =
           filter (\<lambda>q. sid q \<noteq> sid p) (splits s)
           @ (case split (fst r) of None \<Rightarrow> [] | Some sp \<Rightarrow> [sp])"
    and "NEXT_ID (handleSaveEdit s) = snd r"
  using assms(1-8) unfolding assms(9-11)
  by (cases "editMode s";
      simp add: handleSaveEdit_def Let_def buildBaseFromSplit_fields case_prod_beta
        resetEditState_def updateSplits_def updateEintraege_def split: option.splits)+


lemma find_eid_Some:
  "find (\<lambda>e. eid e = k) es = Some x \<Longrightarrow> x \<in> set es \<and> eid x = k"
  by (auto simp: find_Some_iff)

text \<open>
  Claim C3. Let the entry under edit belong to the pair \<open>p\<close> (the pair the lookup
  finds) and let both halves \<open>f\<close> and \<open>g\<close> of \<open>p\<close> be in the collection, the edited
  value not being empty. Then \<^verbatim>\<open>handleSaveEdit\<close> merges the halves into a base with
  the next id, the date and start of \<open>f\<close> and the end of \<open>g\<close>, sets the edited
  field in it, runs the splitter on it, and the new collections are: the entries
  without both halves, followed by the splitter's entries (sorted by id), and the
  pairs without the old one, followed by the splitter's pair if there is one. When
  no entry has an id above the counter, no entry has the id of either half
  afterwards and \<open>p\<close> is no longer a pair. In particular, when the start is edited
  to a valid time that is not after the end of \<open>g\<close>, the splitter gives the single
  entry with the edited start and the end of \<open>g\<close>, no pair is added, and (no pair
  naming an id above the counter) no pair names the new entry.
\<close>

theorem handleSaveEdit_merges_and_resplits:
  assumes "editingEntryId s = Some i" and "i \<noteq> 0"
    and "\<not> (editMode s = Mode_start \<and> editingStart s = [])"
    and "\<not> (editMode s = Mode_ende \<and> editingEnde s = [])"
    and "find (\<lambda>e. eid e = i) (eintraege s) = Some original"
    and "find (\<lambda>p. firstId p = eid original \<or> secondId p = eid original) (splits s) = Some p"
    and "find (\<lambda>e. eid e = firstId p) (eintraege s) = Some f"
    and "find (\<lambda>e. eid e = secondId p) (eintraege s) = Some g"
  shows
    "(let merged = \<lparr>eid = NEXT_ID s + 1, date = date f, start = start f, ende = ende g\<rparr>;
          base = (if editMode s = Mode_start then merged\<lparr>start := editingStart s\<rparr>
                  else merged\<lparr>ende := Some (editingEnde s)\<rparr>);
          r = fst (createEntriesWithOptionalSplit base (NEXT_ID s + 1));
          s' = handleSaveEdit s
      in (i = firstId p \<or> i = secondId p)
       \<and> eintraege s' =
           sortByIdDesc
             (filter (\<lambda>e. eid e \<noteq> firstId p \<and> eid e \<noteq> secondId p) (eintraege s) @ entries r)
       \<and> splits s' =
           filter (\<lambda>q. sid q \<noteq> sid p) (splits s)
           @ (case split r of None \<Rightarrow> [] | Some sp \<Rightarrow> [sp])
       \<and> ((\<forall>e\<in>set (eintraege s). eid e \<le> NEXT_ID s) \<longrightarrow>
            (\<forall>e\<in>set (eintraege s'). eid e \<noteq> firstId p \<and> eid e \<noteq> secondId p)
            \<and> p \<notin> set (splits s'))
       \<and> (editMode s = Mode_start \<and> valid_time (editingStart s)
           \<and> (\<exists>e sv en. ende g = Some e \<and> valid_end e
                 \<and> timeToMinutes (editingStart s) = Some sv \<and> endMinutes e = Some en
                 \<and> sv \<le> en) \<longrightarrow>
            entries r =
              [\<lparr>eid = NEXT_ID s + 1, date = date f, start = editingStart s, ende = ende g\<rparr>]
            \<and> split r = None
            \<and> splits s' = filter (\<lambda>q. sid q \<noteq> sid p) (splits s)
            \<and> ((\<forall>q\<in>set (splits s). firstId q \<le> NEXT_ID s \<and> secondId q \<le> NEXT_ID s) \<longrightarrow>
                 (\<forall>q\<in>set (splits s'). firstId q \<noteq> NEXT_ID s + 1
                                      \<and> secondId q \<noteq> NEXT_ID s + 1))))"
proof -
  define merged where
    "merged = \<lparr>eid = NEXT_ID s + 1, date = date f, start = start f, ende = ende g\<rparr>"
  define base where
    "base = (if editMode s = Mode_start then merged\<lparr>start := editingStart s\<rparr>
             else merged\<lparr>ende := Some (editingEnde s)\<rparr>)"
  define rr where "rr = createEntriesWithOptionalSplit base (NEXT_ID s + 1)"
  define r where "r = fst rr"
  define s' where "s' = handleSaveEdit s"
  note H = handleSaveEdit_both_halves[OF assms merged_def base_def rr_def,
      folded s'_def r_def]
  have orig: "original \<in> set (eintraege s)" "eid original = i"
    using find_eid_Some[OF assms(5)] by simp_all
  have pm: "p \<in> set (splits s)" "firstId p = eid original \<or> secondId p = eid original"
    using assms(6) by (auto simp: find_Some_iff)
  have fm: "f \<in> set (eintraege s)" "eid f = firstId p"
    using find_eid_Some[OF assms(7)] by simp_all
  have gm: "g \<in> set (eintraege s)" "eid g = secondId p"
    using find_eid_Some[OF assms(8)] by simp_all
  have eb: "eid base = NEXT_ID s + 1"
    by (simp add: base_def merged_def)
  have c1: "i = firstId p \<or> i = secondId p"
    using pm(2) orig(2) by auto
  have new_ids: "\<forall>e\<in>set (entries r). NEXT_ID s < eid e"
    using createEntries_ids[of base "NEXT_ID s + 1"] eb
    unfolding r_def rr_def by auto
  have c4: "(\<forall>e\<in>set (eintraege s'). eid e \<noteq> firstId p \<and> eid e \<noteq> secondId p)
            \<and> p \<notin> set (splits s')"
    if fresh: "\<forall>e\<in>set (eintraege s). eid e \<le> NEXT_ID s"
  proof -
    from fresh fm gm have le: "firstId p \<le> NEXT_ID s" "secondId p \<le> NEXT_ID s"
      by auto
    have a: "\<forall>e\<in>set (eintraege s'). eid e \<noteq> firstId p \<and> eid e \<noteq> secondId p"
      unfolding H(1) set_sortByIdDesc using new_ids le by auto
    have b: "p \<notin> set (splits s')"
    proof (cases "split r")
      case None
      then show ?thesis unfolding H(2) by simp
    next
      case (Some sp)
      from createEntries_split_ids[of base "NEXT_ID s + 1" sp] Some
      have "NEXT_ID s + 1 < firstId sp" by (simp add: r_def rr_def)
      with le have "sp \<noteq> p" by auto
      with Some show ?thesis unfolding H(2) by simp
    qed
    from a b show ?thesis by simp
  qed
  have c5: "entries r =
              [\<lparr>eid = NEXT_ID s + 1, date = date f, start = editingStart s, ende = ende g\<rparr>]
            \<and> split r = None
            \<and> splits s' = filter (\<lambda>q. sid q \<noteq> sid p) (splits s)
            \<and> ((\<forall>q\<in>set (splits s). firstId q \<le> NEXT_ID s \<and> secondId q \<le> NEXT_ID s) \<longrightarrow>
                 (\<forall>q\<in>set (splits s'). firstId q \<noteq> NEXT_ID s + 1
                                      \<and> secondId q \<noteq> NEXT_ID s + 1))"
    if part: "editMode s = Mode_start \<and> valid_time (editingStart s)
           \<and> (\<exists>e sv en. ende g = Some e \<and> valid_end e
                 \<and> timeToMinutes (editingStart s) = Some sv \<and> endMinutes e = Some en
                 \<and> sv \<le> en)"
  proof -
    from part obtain e sv en where
      m: "editMode s = Mode_start" and e: "ende g = Some e" and ve: "valid_end e"
      and sv: "timeToMinutes (editingStart s) = Some sv" and en: "endMinutes e = Some en"
      and le: "sv \<le> en"
      by blast
    have b: "base = \<lparr>eid = NEXT_ID s + 1, date = date f, start = editingStart s, ende = ende g\<rparr>"
      by (simp add: base_def merged_def m)
    have be: "ende base = Some e" by (simp add: b e)
    have bs: "timeToMinutes (start base) = Some sv" by (simp add: b sv)
    have ne: "e \<noteq> []" using ve by (rule valid_end_nonempty)
    from endMinutes_valid[OF ve] en have en1440: "en \<le> 1440" by auto
    have rr: "rr = (\<lparr>entries = [base], split = None\<rparr>, NEXT_ID s + 1)"
      unfolding rr_def by (rule createEntries_fits[OF be ne bs en le en1440])
    then have r1: "entries r = [base]" and r2: "split r = None"
      by (simp_all add: r_def)
    have sp: "splits s' = filter (\<lambda>q. sid q \<noteq> sid p) (splits s)"
      unfolding H(2) r2 by simp
    have "\<forall>q\<in>set (splits s'). firstId q \<noteq> NEXT_ID s + 1 \<and> secondId q \<noteq> NEXT_ID s + 1"
      if "\<forall>q\<in>set (splits s). firstId q \<le> NEXT_ID s \<and> secondId q \<le> NEXT_ID s"
      using that unfolding sp by auto
    with r1 r2 sp b show ?thesis by simp
  qed
  show ?thesis
    unfolding Let_def merged_def[symmetric] base_def[symmetric]
      rr_def[symmetric] r_def[symmetric] s'_def[symmetric]
    using c1 H(1) H(2) c4 c5 by blast
qed


theorem handleSaveEdit_merges_and_resplits_witness:
  "editingEntryId pair_state = Some 11
   \<and> find (\<lambda>e. eid e = 11) (eintraege pair_state) =
       Some \<lparr>eid = 11, date = ''2024-01-01'', start = ''23:50'', ende = Some ''24:00''\<rparr>
   \<and> find (\<lambda>p. firstId p = 11 \<or> secondId p = 11) (splits pair_state) =
       Some \<lparr>sid = ''11-12'', firstId = 11, secondId = 12\<rparr>
   \<and> find (\<lambda>e. eid e = 12) (eintraege pair_state) =
       Some \<lparr>eid = 12, date = ''2024-01-01'', start = ''00:00'', ende = Some ''00:10''\<rparr>
   \<and> valid_time ''00:05'' \<and> valid_end ''00:10''
   \<and> timeToMinutes ''00:05'' = Some 5 \<and> endMinutes ''00:10'' = Some 10
   \<and> eintraege (handleSaveEdit pair_state) =
       [\<lparr>eid = 13, date = ''2024-01-01'', start = ''00:05'', ende = Some ''00:10''\<rparr>,
        \<lparr>eid = 5, date = ''2024-01-01'', start = ''09:00'', ende = Some ''10:00''\<rparr>]
   \<and> splits (handleSaveEdit pair_state) = []"
proof -
  define f where "f = \<lparr>eid = 11, date = ''2024-01-01'', start = ''23:50'', ende = Some ''24:00''\<rparr>"
  define g where "g = \<lparr>eid = 12, date = ''2024-01-01'', start = ''00:00'', ende = Some ''00:10''\<rparr>"
  define p where "p = \<lparr>sid = ''11-12'', firstId = 11, secondId = 12\<rparr>"
  have h1: "editingEntryId pair_state = Some 11" by (simp add: pair_state_def)
  have h2: "(11::int) \<noteq> 0" by simp
  have h3: "\<not> (editMode pair_state = Mode_start \<and> editingStart pair_state = [])"
    by (simp add: pair_state_def)
  have h4: "\<not> (editMode pair_state = Mode_ende \<and> editingEnde pair_state = [])"
    by (simp add: pair_state_def)
  have h5: "find (\<lambda>e. eid e = 11) (eintraege pair_state) = Some f"
    by (simp add: pair_state_def f_def)
  have h6: "find (\<lambda>p. firstId p = eid f \<or> secondId p = eid f) (splits pair_state) = Some p"
    by (simp add: pair_state_def f_def p_def)
  have h7: "find (\<lambda>e. eid e = firstId p) (eintraege pair_state) = Some f"
    by (simp add: pair_state_def f_def p_def)
  have h8: "find (\<lambda>e. eid e = secondId p) (eintraege pair_state) = Some g"
    by (simp add: pair_state_def g_def p_def)
  have v: "valid_time ''00:05''" by (simp add: is_digit_def digit_val_def)
  have ve: "valid_end ''00:10''" by (simp add: valid_end_def is_digit_def digit_val_def)
  have t5: "timeToMinutes ''00:05'' = Some 5"
    by (simp add: timeToMinutes_def Number_str_def is_digit_def digit_val_def)
  have part: "editMode pair_state = Mode_start \<and> valid_time (editingStart pair_state)
      \<and> (\<exists>e sv en. ende g = Some e \<and> valid_end e
            \<and> timeToMinutes (editingStart pair_state) = Some sv \<and> endMinutes e = Some en
            \<and> sv \<le> en)"
    using v ve t5 end_0010 by (simp add: pair_state_def g_def)
  note T = handleSaveEdit_merges_and_resplits[OF h1 h2 h3 h4 h5 h6 h7 h8, unfolded Let_def]
  from T part have
    e: "eintraege (handleSaveEdit pair_state) =
          sortByIdDesc (filter (\<lambda>e. eid e \<noteq> firstId p \<and> eid e \<noteq> secondId p) (eintraege pair_state)
            @ [\<lparr>eid = NEXT_ID pair_state + 1, date = date f, start = editingStart pair_state,
                 ende = ende g\<rparr>])"
    and sp: "splits (handleSaveEdit pair_state) = filter (\<lambda>q. sid q \<noteq> sid p) (splits pair_state)"
    by simp_all
  have e': "eintraege (handleSaveEdit pair_state) =
       [\<lparr>eid = 13, date = ''2024-01-01'', start = ''00:05'', ende = Some ''00:10''\<rparr>,
        \<lparr>eid = 5, date = ''2024-01-01'', start = ''09:00'', ende = Some ''10:00''\<rparr>]"
    unfolding e by (simp add: pair_state_def p_def f_def g_def sortByIdDesc_def)
  have sp': "splits (handleSaveEdit pair_state) = []"
    unfolding sp by (simp add: pair_state_def p_def)
  show ?thesis
    using h1 h5 h6 h8 v ve t5 end_0010 e' sp' by (simp add: f_def g_def p_def)
qed

section \<open>The order of the entries and the entry that is closed\<close>

lemma sorted_desc_sortByIdDesc: "sorted_desc (sortByIdDesc xs)"
proof -
  have "sorted (map (\<lambda>e. - eid e) (sort_key (\<lambda>e. - eid e) xs))"
    by (rule sorted_sort_key)
  then show ?thesis
    by (simp add: sorted_desc_def sortByIdDesc_def sorted_map)
qed

lemma handleAddStart_entries:
  "eintraege (handleAddStart c t d s) = eintraege s \<or>
   (\<exists>xs. eintraege (handleAddStart c t d s) = sortByIdDesc xs)"
  by (auto simp: handleAddStart_def updateEintraege_def generateId_def Let_def)

lemma handleAddEnde_entries:
  "eintraege (handleAddEnde t s) = eintraege s \<or>
   (\<exists>xs. eintraege (handleAddEnde t s) = sortByIdDesc xs)"
  by (auto simp: handleAddEnde_def updateEintraege_def updateSplits_def Let_def case_prod_beta
      split: option.splits)

lemma handleAddFixedNoonEntry_entries:
  "eintraege (handleAddFixedNoonEntry c d s) = eintraege s \<or>
   (\<exists>xs. eintraege (handleAddFixedNoonEntry c d s) = sortByIdDesc xs)"
  by (auto simp: handleAddFixedNoonEntry_def updateEintraege_def generateId_def Let_def)

lemma handleSaveEdit_entries:
  "eintraege (handleSaveEdit s) = eintraege s \<or>
   (\<exists>xs. eintraege (handleSaveEdit s) = sortByIdDesc xs)"
  by (auto simp: handleSaveEdit_def updateEintraege_def updateSplits_def resetEditState_def
      Let_def case_prod_beta split: option.splits)

lemma handleDeleteEntry_entries:
  "eintraege (handleDeleteEntry c i s) = eintraege s \<or>
   (\<exists>xs. eintraege (handleDeleteEntry c i s) = sortByIdDesc xs)"
  by (auto simp: handleDeleteEntry_def updateEintraege_def updateSplits_def resetEditState_def
      Let_def split: option.splits)

lemma sorted_desc_step:
  "sorted_desc (eintraege s) \<Longrightarrow>
   eintraege s' = eintraege s \<or> (\<exists>xs. eintraege s' = sortByIdDesc xs) \<Longrightarrow>
   sorted_desc (eintraege s')"
  by (auto simp: sorted_desc_sortByIdDesc)

lemma reachable_sorted: "reachable s \<Longrightarrow> sorted_desc (eintraege s)"
proof (induction rule: reachable.induct)
  case (init n)
  show ?case by (simp add: sorted_desc_def)
next
  case (load s savedEintraege savedSplits)
  show ?case by (simp add: loadData_def sorted_desc_sortByIdDesc)
next
  case (addStart s confirmed currentTime today)
  from addStart.IH handleAddStart_entries show ?case by (rule sorted_desc_step)
next
  case (addEnde s currentTime)
  from addEnde.IH handleAddEnde_entries show ?case by (rule sorted_desc_step)
next
  case (addFixed s confirmed d)
  from addFixed.IH handleAddFixedNoonEntry_entries show ?case by (rule sorted_desc_step)
next
  case (saveEdit s)
  from saveEdit.IH handleSaveEdit_entries show ?case by (rule sorted_desc_step)
next
  case (deleteEntry s confirmed i)
  from deleteEntry.IH handleDeleteEntry_entries show ?case by (rule sorted_desc_step)
next
  case (editForm s a m es ee)
  from editForm.IH show ?case by simp
qed

lemma sorted_desc_last_least:
  assumes "sorted_desc ys" "x \<in> set ys"
  shows "eid (last ys) \<le> eid x"
proof -
  from assms(2) have ne: "ys \<noteq> []" by auto
  then have ys: "ys = butlast ys @ [last ys]" by simp
  with assms(1) have "sorted_wrt (\<lambda>a b. eid b \<le> eid a) (butlast ys @ [last ys])"
    by (simp add: sorted_desc_def)
  then have "\<forall>a\<in>set (butlast ys). eid (last ys) \<le> eid a"
    by (simp add: sorted_wrt_append)
  moreover from assms(2) ys have "x \<in> set (butlast ys) \<or> x = last ys"
    by (metis Un_iff empty_iff empty_set set_ConsD set_append)
  ultimately show ?thesis by auto
qed

lemma sorted_desc_filter: "sorted_desc es \<Longrightarrow> sorted_desc (filter P es)"
  by (simp add: sorted_desc_def sorted_wrt_filter)

lemma getOpenEntryInfo_last:
  assumes "filter (\<lambda>e. falsy (ende e)) es \<noteq> []"
  shows "getOpenEntryInfo es =
    \<lparr>hasOpen = True, openId = Some (eid (last (filter (\<lambda>e. falsy (ende e)) es)))\<rparr>"
  using assms by (simp add: getOpenEntryInfo_def Let_def last_conv_nth)

lemma find_eid_distinct:
  assumes "distinct (map eid es)" "x \<in> set es"
  shows "find (\<lambda>e. eid e = eid x) es = Some x"
  using assms
proof (induction es)
  case Nil
  then show ?case by simp
next
  case (Cons a es)
  then show ?case by (cases "eid a = eid x") (auto simp: image_iff)
qed


text \<open>
  Claim C10. In every state the application reaches the entries are sorted by id in
  descending order, and loading and \<^verbatim>\<open>updateEintraege\<close> leave them so. Hence, when an
  entry is open, \<^verbatim>\<open>getOpenEntryInfo\<close> returns the id of the last open entry of the
  collection, which is at most the id of every open entry; and (ids being distinct)
  \<^verbatim>\<open>handleAddEnde\<close> closes that entry: it is removed and the splitter's entries for it,
  with the end set, are added.
\<close>

theorem entries_sorted_and_close_targets_oldest:
  assumes "reachable s"
  shows "sorted_desc (eintraege s)
    \<and> sorted_desc (eintraege (loadData savedEintraege savedSplits s))
    \<and> sorted_desc (eintraege (updateEintraege newEintraege s))
    \<and> (\<forall>x\<in>set (eintraege s). falsy (ende x) \<longrightarrow>
         (let lastOpen = last (filter (\<lambda>e. falsy (ende e)) (eintraege s)) in
            lastOpen \<in> set (eintraege s) \<and> falsy (ende lastOpen)
          \<and> getOpenEntryInfo (eintraege s) = \<lparr>hasOpen = True, openId = Some (eid lastOpen)\<rparr>
          \<and> eid lastOpen \<le> eid x
          \<and> (distinct (map eid (eintraege s)) \<longrightarrow>
               eintraege (handleAddEnde currentTime s) =
                 sortByIdDesc
                   (filter (\<lambda>e. eid e \<noteq> eid lastOpen) (eintraege s)
                    @ entries (fst (createEntriesWithOptionalSplit
                                     (lastOpen\<lparr>ende := Some currentTime\<rparr>) (NEXT_ID s)))))))"
proof -
  have srt: "sorted_desc (eintraege s)" using assms by (rule reachable_sorted)
  have l: "sorted_desc (eintraege (loadData savedEintraege savedSplits s))"
    by (simp add: loadData_def sorted_desc_sortByIdDesc)
  have u: "sorted_desc (eintraege (updateEintraege newEintraege s))"
    by (simp add: updateEintraege_def sorted_desc_sortByIdDesc)
  define os where "os = filter (\<lambda>e. falsy (ende e)) (eintraege s)"
  define lastOpen where "lastOpen = last os"
  have main: "lastOpen \<in> set (eintraege s) \<and> falsy (ende lastOpen)
          \<and> getOpenEntryInfo (eintraege s) = \<lparr>hasOpen = True, openId = Some (eid lastOpen)\<rparr>
          \<and> eid lastOpen \<le> eid x
          \<and> (distinct (map eid (eintraege s)) \<longrightarrow>
               eintraege (handleAddEnde currentTime s) =
                 sortByIdDesc
                   (filter (\<lambda>e. eid e \<noteq> eid lastOpen) (eintraege s)
                    @ entries (fst (createEntriesWithOptionalSplit
                                     (lastOpen\<lparr>ende := Some currentTime\<rparr>) (NEXT_ID s)))))"
    if x: "x \<in> set (eintraege s)" "falsy (ende x)" for x
  proof -
    from x have xo: "x \<in> set os" by (simp add: os_def)
    then have ne: "os \<noteq> []" by auto
    then have "lastOpen \<in> set os" by (simp add: lastOpen_def)
    then have lo: "lastOpen \<in> set (eintraege s)" "falsy (ende lastOpen)"
      by (simp_all add: os_def)
    have info: "getOpenEntryInfo (eintraege s) =
        \<lparr>hasOpen = True, openId = Some (eid lastOpen)\<rparr>"
      using getOpenEntryInfo_last[of "eintraege s"] ne by (simp add: os_def lastOpen_def)
    have "sorted_desc os" unfolding os_def using srt by (rule sorted_desc_filter)
    then have least: "eid lastOpen \<le> eid x"
      unfolding lastOpen_def using xo by (rule sorted_desc_last_least)
    have close: "eintraege (handleAddEnde currentTime s) =
                 sortByIdDesc
                   (filter (\<lambda>e. eid e \<noteq> eid lastOpen) (eintraege s)
                    @ entries (fst (createEntriesWithOptionalSplit
                                     (lastOpen\<lparr>ende := Some currentTime\<rparr>) (NEXT_ID s))))"
      if d: "distinct (map eid (eintraege s))"
    proof -
      have f: "find (\<lambda>e. eid e = eid lastOpen) (eintraege s) = Some lastOpen"
        using d lo(1) by (rule find_eid_distinct)
      show ?thesis
        by (simp add: handleAddEnde_def info f Let_def case_prod_beta
            updateSplits_def updateEintraege_def)
    qed
    from lo info least close show ?thesis by blast
  qed
  show ?thesis
    unfolding Let_def os_def[symmetric] lastOpen_def[symmetric]
    using srt l u main by blast
qed

lemma two_open_state_reachable: "reachable two_open_state"
proof -
  define s0 where "s0 = \<lparr>NEXT_ID = 100, eintraege = [], splits = [], editingEntryId = None,
                    editMode = Mode_none, editingStart = [], editingEnde = []\<rparr>"
  have "reachable s0" unfolding s0_def by (rule reachable.init)
  then have "reachable (handleAddStart False ''09:00'' ''2024-01-01'' s0)"
    by (rule reachable.addStart)
  then have "reachable (handleAddStart True ''10:00'' ''2024-01-01''
      (handleAddStart False ''09:00'' ''2024-01-01'' s0))"
    by (rule reachable.addStart)
  moreover have "handleAddStart True ''10:00'' ''2024-01-01''
      (handleAddStart False ''09:00'' ''2024-01-01'' s0) = two_open_state"
    by (simp add: s0_def two_open_state_def handleAddStart_def getOpenEntryInfo_def falsy_def
        generateId_def updateEintraege_def sortByIdDesc_def Let_def)
  ultimately show ?thesis by simp
qed

theorem entries_sorted_and_close_targets_oldest_witness:
  "reachable two_open_state
   \<and> getOpenEntryInfo (eintraege two_open_state) = \<lparr>hasOpen = True, openId = Some 101\<rparr>
   \<and> eintraege (handleAddEnde ''11:00'' two_open_state) =
       [\<lparr>eid = 102, date = ''2024-01-01'', start = ''10:00'', ende = None\<rparr>,
        \<lparr>eid = 101, date = ''2024-01-01'', start = ''09:00'', ende = Some ''11:00''\<rparr>]"
proof -
  define x where "x = \<lparr>eid = 102, date = ''2024-01-01'', start = ''10:00'', ende = None\<rparr>"
  define lo where "lo = \<lparr>eid = 101, date = ''2024-01-01'', start = ''09:00'', ende = None\<rparr>"
  have xs: "x \<in> set (eintraege two_open_state)" "falsy (ende x)"
    by (simp_all add: x_def two_open_state_def falsy_def)
  have la: "last (filter (\<lambda>e. falsy (ende e)) (eintraege two_open_state)) = lo"
    by (simp add: two_open_state_def falsy_def lo_def)
  have d: "distinct (map eid (eintraege two_open_state))"
    by (simp add: two_open_state_def)
  have c: "createEntriesWithOptionalSplit (lo\<lparr>ende := Some ''11:00''\<rparr>) 102 =
      (\<lparr>entries = [lo\<lparr>ende := Some ''11:00''\<rparr>], split = None\<rparr>, 102)"
    by (simp add: createEntriesWithOptionalSplit_def lo_def timeToMinutes_def Number_str_def
        is_digit_def digit_val_def)
  from entries_sorted_and_close_targets_oldest[OF two_open_state_reachable,
      of "[]" "[]" "[]" "''11:00''"] xs
  have "getOpenEntryInfo (eintraege two_open_state) = \<lparr>hasOpen = True, openId = Some (eid lo)\<rparr>
     \<and> (distinct (map eid (eintraege two_open_state)) \<longrightarrow>
         eintraege (handleAddEnde ''11:00'' two_open_state) =
           sortByIdDesc
             (filter (\<lambda>e. eid e \<noteq> eid lo) (eintraege two_open_state)
              @ entries (fst (createEntriesWithOptionalSplit
                                (lo\<lparr>ende := Some ''11:00''\<rparr>) (NEXT_ID two_open_state)))))"
    unfolding Let_def la by blast
  with d have i: "getOpenEntryInfo (eintraege two_open_state) =
      \<lparr>hasOpen = True, openId = Some (eid lo)\<rparr>"
    and e: "eintraege (handleAddEnde ''11:00'' two_open_state) =
           sortByIdDesc
             (filter (\<lambda>e. eid e \<noteq> eid lo) (eintraege two_open_state)
              @ entries (fst (createEntriesWithOptionalSplit
                                (lo\<lparr>ende := Some ''11:00''\<rparr>) (NEXT_ID two_open_state))))"
    by simp_all
  have n: "NEXT_ID two_open_state = 102" by (simp add: two_open_state_def)
  have e': "eintraege (handleAddEnde ''11:00'' two_open_state) =
       [\<lparr>eid = 102, date = ''2024-01-01'', start = ''10:00'', ende = None\<rparr>,
        \<lparr>eid = 101, date = ''2024-01-01'', start = ''09:00'', ende = Some ''11:00''\<rparr>]"
    unfolding e n c by (simp add: two_open_state_def lo_def sortByIdDesc_def)
  from two_open_state_reachable i e' show ?thesis by (simp add: lo_def)
qed

section \<open>The adjusted date\<close>

lemma utc_day_same:
  fixes m :: int
  assumes "- 1440 < m" "m \<le> 0"
  shows "(- (m * 60000)) div 86400000 = 0"
  using assms by (intro div_pos_pos_trivial) simp_all

lemma utc_day_before:
  fixes m :: int
  assumes "0 < m" "m < 1440"
  shows "(- (m * 60000)) div 86400000 = - 1"
proof -
  have "(- (m * 60000)) div 86400000 = (- m) div 1440"
  proof -
    have "- (m * 60000) = (- m) * 60000" by simp
    moreover have "(86400000::int) = 1440 * 60000" by simp
    ultimately show ?thesis by (metis div_mult_mult2 zero_neq_numeral)
  qed
  also have "(- m) div 1440 = - 1"
  proof -
    have "- m = (- 1) * 1440 + (1440 - m)" by simp
    moreover have "0 \<le> 1440 - m" "1440 - m < 1440" using assms by simp_all
    ultimately show ?thesis
      by (metis add.commute add.right_neutral div_mult_self1 div_pos_pos_trivial
          zero_neq_numeral)
  qed
  finally show ?thesis .
qed

lemma parseISODate_length: "parseISODate str = Some x \<Longrightarrow> length str = 10"
  by (induction str rule: parseISODate.induct) simp_all

lemma Date_new_valid:
  assumes "parseISODate str = Some (y, m, d)"
  shows "Date_new tz (str @ ''T00:00:00'') = Some (UTC_time tz (days_from_civil y m d * msPerDay))"
  using assms parseISODate_length[OF assms] by (simp add: Date_new_def)

text \<open>
  When local midnight of day \<open>D\<close> reads back as itself (the offset at its UTC time
  is the offset it was converted with), moving it by \<open>n\<close> days gives local midnight
  of day \<open>D + n\<close>, converted with the offset in force then.
\<close>

lemma Date_addDays_local_midnight:
  assumes "offsetAtUTC tz (UTC_time tz (D * msPerDay)) = offsetAtLocal tz (D * msPerDay)"
  shows "Date_addDays tz n (UTC_time tz (D * msPerDay)) =
         (D + n) * msPerDay - offsetAtLocal tz ((D + n) * msPerDay) * msPerMinute"
proof -
  have L: "LocalTime tz (UTC_time tz (D * msPerDay)) = D * msPerDay"
    unfolding LocalTime_def assms by (simp add: UTC_time_def)
  have dm: "(D * msPerDay) div msPerDay = D" "(D * msPerDay) mod msPerDay = 0"
    by (simp_all add: msPerDay_def)
  show ?thesis
    unfolding Date_addDays_def L Let_def dm by (simp add: UTC_time_def)
qed

lemma toISOString_date_shifted:
  "toISOString_date (D * msPerDay - m * msPerMinute) =
   iso_date (civil_from_days (D + (- (m * 60000)) div 86400000))"
proof -
  have "(D * 86400000 - m * 60000) div 86400000 = D + (- (m * 60000)) div 86400000"
  proof -
    have "D * 86400000 - m * 60000 = - (m * 60000) + D * 86400000" by simp
    then show ?thesis by (simp only: div_mult_self1)
  qed
  then show ?thesis
    by (simp add: toISOString_date_def msPerDay_def msPerMinute_def)
qed

lemma adjusted_second_half:
  assumes "find (\<lambda>p. firstId p = eid e \<or> secondId p = eid e) sps = Some p"
    and "secondId p = eid e" and "parseISODate (date e) = Some (y, m, d)"
    and "offsetAtUTC tz (UTC_time tz (days_from_civil y m d * msPerDay)) =
         offsetAtLocal tz (days_from_civil y m d * msPerDay)"
  shows "getAdjustedDateForEntry tz e sps =
     Inr (iso_date (civil_from_days (days_from_civil y m d + 2 +
            (- (offsetAtLocal tz ((days_from_civil y m d + 2) * msPerDay) * 60000))
              div 86400000)))"
  using assms(1,2)
  by (simp add: getAdjustedDateForEntry_def Date_new_valid[OF assms(3)]
      Date_addDays_local_midnight[OF assms(4)] toISOString_date_shifted)

lemma adjusted_no_pair:
  "find (\<lambda>p. firstId p = eid e \<or> secondId p = eid e) sps = None \<Longrightarrow>
   getAdjustedDateForEntry tz e sps = Inr (date e)"
  by (simp add: getAdjustedDateForEntry_def)

lemma adjusted_first_half:
  assumes "find (\<lambda>p. firstId p = eid e \<or> secondId p = eid e) sps = Some p"
    and "secondId p \<noteq> eid e"
  shows "firstId p = eid e" "getAdjustedDateForEntry tz e sps = Inr (date e)"
proof -
  from assms show "firstId p = eid e" by (auto simp: find_Some_iff)
  from assms show "getAdjustedDateForEntry tz e sps = Inr (date e)"
    by (simp add: getAdjustedDateForEntry_def)
qed

text \<open>
  The second half of a pair, by the offset \<open>m\<close> in force at local midnight two days
  after the stored date: two calendar days on when \<open>m\<close> is zero or negative, one
  calendar day on when \<open>m\<close> is positive.
\<close>

lemma adjusted_second_half_two_days:
  assumes "find (\<lambda>p. firstId p = eid e \<or> secondId p = eid e) sps = Some p"
    and "secondId p = eid e" and "parseISODate (date e) = Some (y, m, d)"
    and "offsetAtUTC tz (UTC_time tz (days_from_civil y m d * msPerDay)) =
         offsetAtLocal tz (days_from_civil y m d * msPerDay)"
    and "- 1440 < offsetAtLocal tz ((days_from_civil y m d + 2) * msPerDay)"
    and "offsetAtLocal tz ((days_from_civil y m d + 2) * msPerDay) \<le> 0"
  shows "getAdjustedDateForEntry tz e sps =
           Inr (iso_date (civil_from_days (days_from_civil y m d + 2)))"
    and "shift_days 2 (date e) = Some (iso_date (civil_from_days (days_from_civil y m d + 2)))"
proof -
  show "getAdjustedDateForEntry tz e sps =
           Inr (iso_date (civil_from_days (days_from_civil y m d + 2)))"
    using adjusted_second_half[OF assms(1-4)] utc_day_same[OF assms(5,6)] by simp
  show "shift_days 2 (date e) = Some (iso_date (civil_from_days (days_from_civil y m d + 2)))"
    by (simp add: shift_days_def assms(3))
qed

lemma adjusted_second_half_one_day:
  assumes "find (\<lambda>p. firstId p = eid e \<or> secondId p = eid e) sps = Some p"
    and "secondId p = eid e" and "parseISODate (date e) = Some (y, m, d)"
    and "offsetAtUTC tz (UTC_time tz (days_from_civil y m d * msPerDay)) =
         offsetAtLocal tz (days_from_civil y m d * msPerDay)"
    and "0 < offsetAtLocal tz ((days_from_civil y m d + 2) * msPerDay)"
    and "offsetAtLocal tz ((days_from_civil y m d + 2) * msPerDay) < 1440"
  shows "getAdjustedDateForEntry tz e sps =
           Inr (iso_date (civil_from_days (days_from_civil y m d + 1)))"
    and "shift_days 1 (date e) = Some (iso_date (civil_from_days (days_from_civil y m d + 1)))"
proof -
  show "getAdjustedDateForEntry tz e sps =
           Inr (iso_date (civil_from_days (days_from_civil y m d + 1)))"
    using adjusted_second_half[OF assms(1-4)] utc_day_before[OF assms(5,6)]
    by (simp add: add.commute)
  show "shift_days 1 (date e) = Some (iso_date (civil_from_days (days_from_civil y m d + 1)))"
    by (simp add: shift_days_def assms(3))
qed

lemma parse_2024_01_01: "parseISODate ''2024-01-01'' = Some (2024, 1, 1)"
  by (simp add: is_digit_def digit_val_def days_in_month_def leap_year_def)

lemma parse_2024_03_30: "parseISODate ''2024-03-30'' = Some (2024, 3, 30)"
  by (simp add: is_digit_def digit_val_def days_in_month_def leap_year_def)

lemma day_2024_01_01: "days_from_civil 2024 1 1 = 19723"
  by (simp add: days_from_civil_def)

lemma day_2024_03_30: "days_from_civil 2024 3 30 = 19812"
  by (simp add: days_from_civil_def)

lemma civil_19724: "civil_from_days 19724 = (2024, 1, 2)"
  unfolding civil_from_days_def Let_def by simp

lemma civil_19725: "civil_from_days 19725 = (2024, 1, 3)"
  unfolding civil_from_days_def Let_def by simp

lemma civil_19813: "civil_from_days 19813 = (2024, 3, 31)"
  unfolding civil_from_days_def Let_def by simp

lemma civil_19814: "civil_from_days 19814 = (2024, 4, 1)"
  unfolding civil_from_days_def Let_def by simp

lemma iso_2024:
  "iso_date (2024, 1, 2) = ''2024-01-02''"
  "iso_date (2024, 1, 3) = ''2024-01-03''"
  "iso_date (2024, 3, 31) = ''2024-03-31''"
  "iso_date (2024, 4, 1) = ''2024-04-01''"
  by (simp_all add: iso_date_def pad_number_def padStart_def Number_toString_def digit_char_def)

lemma shift_2024_01_01:
  "shift_days 2 ''2024-01-01'' = Some ''2024-01-03''"
  "shift_days 1 ''2024-01-01'' = Some ''2024-01-02''"
  by (simp_all add: shift_days_def parse_2024_01_01 day_2024_01_01 civil_19724 civil_19725
      iso_2024 del: parseISODate.simps)

lemma shift_2024_03_30: "shift_days 2 ''2024-03-30'' = Some ''2024-04-01''"
  by (simp add: shift_days_def parse_2024_03_30 day_2024_03_30 civil_19814 iso_2024
      del: parseISODate.simps)

text \<open>
  On a host at UTC, or west of it, the second half stored under 2024-01-01 is
  grouped under 2024-01-03, two calendar days on.
\<close>

lemma adjusted_at_utc_and_west:
  "getAdjustedDateForEntry (fixed_zone 0)
      \<lparr>eid = 2, date = ''2024-01-01'', start = ''00:00'', ende = Some ''00:10''\<rparr>
      [\<lparr>sid = ''1-2'', firstId = 1, secondId = 2\<rparr>] = Inr ''2024-01-03''"
  "getAdjustedDateForEntry (fixed_zone (- 300))
      \<lparr>eid = 2, date = ''2024-01-01'', start = ''00:00'', ende = Some ''00:10''\<rparr>
      [\<lparr>sid = ''1-2'', firstId = 1, secondId = 2\<rparr>] = Inr ''2024-01-03''"
proof -
  define e where
    "e = \<lparr>eid = 2, date = ''2024-01-01'', start = ''00:00'', ende = Some ''00:10''\<rparr>"
  define p where "p = \<lparr>sid = ''1-2'', firstId = 1, secondId = 2\<rparr>"
  have f: "find (\<lambda>p. firstId p = eid e \<or> secondId p = eid e) [p] = Some p"
    and sc: "secondId p = eid e" and pd: "parseISODate (date e) = Some (2024, 1, 1)"
    by (simp_all add: e_def p_def parse_2024_01_01 del: parseISODate.simps)
  have "getAdjustedDateForEntry (fixed_zone m) e [p] = Inr ''2024-01-03''"
    if "- 1440 < m" "m \<le> 0" for m
    using adjusted_second_half_two_days(1)[OF f sc pd, of "fixed_zone m"] that
    by (simp add: fixed_zone_def day_2024_01_01 civil_19725 iso_2024)
  from this[of 0] this[of "- 300"]
  show "getAdjustedDateForEntry (fixed_zone 0)
      \<lparr>eid = 2, date = ''2024-01-01'', start = ''00:00'', ende = Some ''00:10''\<rparr>
      [\<lparr>sid = ''1-2'', firstId = 1, secondId = 2\<rparr>] = Inr ''2024-01-03''"
    "getAdjustedDateForEntry (fixed_zone (- 300))
      \<lparr>eid = 2, date = ''2024-01-01'', start = ''00:00'', ende = Some ''00:10''\<rparr>
      [\<lparr>sid = ''1-2'', firstId = 1, secondId = 2\<rparr>] = Inr ''2024-01-03''"
    by (simp_all add: e_def p_def)
qed

text \<open>
  On a host in London the offset is zero on 2024-03-30 and one hour at local
  midnight of 2024-04-01: the second half stored under 2024-03-30 is grouped under
  2024-03-31.
\<close>

lemma adjusted_in_london_over_the_change:
  "getAdjustedDateForEntry europe_london_2024
      \<lparr>eid = 2, date = ''2024-03-30'', start = ''00:00'', ende = Some ''00:10''\<rparr>
      [\<lparr>sid = ''1-2'', firstId = 1, secondId = 2\<rparr>] = Inr ''2024-03-31''"
proof -
  define e where
    "e = \<lparr>eid = 2, date = ''2024-03-30'', start = ''00:00'', ende = Some ''00:10''\<rparr>"
  define p where "p = \<lparr>sid = ''1-2'', firstId = 1, secondId = 2\<rparr>"
  have f: "find (\<lambda>p. firstId p = eid e \<or> secondId p = eid e) [p] = Some p"
    and sc: "secondId p = eid e" and pd: "parseISODate (date e) = Some (2024, 3, 30)"
    by (simp_all add: e_def p_def parse_2024_03_30 del: parseISODate.simps)
  have rb: "offsetAtUTC europe_london_2024
              (UTC_time europe_london_2024 (days_from_civil 2024 3 30 * msPerDay)) =
            offsetAtLocal europe_london_2024 (days_from_civil 2024 3 30 * msPerDay)"
    by (simp add: europe_london_2024_def UTC_time_def day_2024_03_30 msPerDay_def
        msPerMinute_def)
  have o: "offsetAtLocal europe_london_2024 ((days_from_civil 2024 3 30 + 2) * msPerDay) = 60"
    by (simp add: europe_london_2024_def day_2024_03_30 msPerDay_def)
  have "getAdjustedDateForEntry europe_london_2024 e [p] = Inr ''2024-03-31''"
    using adjusted_second_half_one_day(1)[OF f sc pd rb] o
    by (simp add: day_2024_03_30 civil_19813 iso_2024)
  then show ?thesis by (simp add: e_def p_def)
qed

text \<open>
  Claim C5, where the code departs from it. On a host one hour east of UTC (Central
  European Time) the second half of a pair whose entries are stored under
  2024-01-01 is grouped under 2024-01-02: the date is built at local midnight,
  which is 23:00 of the day before in UTC, moved on by two local days and rendered
  in UTC. Two calendar days after 2024-01-01 is 2024-01-03.
\<close>

theorem adjusted_date_east_of_utc_is_one_day_on:
  "getAdjustedDateForEntry (fixed_zone 60)
      \<lparr>eid = 2, date = ''2024-01-01'', start = ''00:00'', ende = Some ''00:10''\<rparr>
      [\<lparr>sid = ''1-2'', firstId = 1, secondId = 2\<rparr>] = Inr ''2024-01-02''
   \<and> shift_days 2 ''2024-01-01'' = Some ''2024-01-03''"
  by (simp add: getAdjustedDateForEntry_def Date_new_def Date_addDays_def toISOString_date_def
      LocalTime_def UTC_time_def fixed_zone_def msPerDay_def msPerMinute_def
      parse_2024_01_01 day_2024_01_01 civil_19724 iso_2024 shift_2024_01_01
      del: parseISODate.simps)

section \<open>The fixed entry\<close>




section \<open>The counter bounds the ids\<close>

lemma createEntries_bounds:
  assumes "eid b \<le> k"
  shows "k \<le> snd (createEntriesWithOptionalSplit b k)"
    and "\<forall>e\<in>set (entries (fst (createEntriesWithOptionalSplit b k))).
            eid e \<le> snd (createEntriesWithOptionalSplit b k)"
    and "\<forall>sp. split (fst (createEntriesWithOptionalSplit b k)) = Some sp \<longrightarrow>
            firstId sp \<le> snd (createEntriesWithOptionalSplit b k) \<and>
            secondId sp \<le> snd (createEntriesWithOptionalSplit b k)"
  using assms
  by (auto simp: createEntriesWithOptionalSplit_def Let_def generateId_def
      split: option.splits if_splits)

text \<open>
  What every replacement made by \<^verbatim>\<open>handleAddEnde\<close> and \<^verbatim>\<open>handleSaveEdit\<close> looks like:
  some of the old entries and pairs are kept, the output of the splitter on a base
  with an id at most the counter is added, and the counter moves to the splitter's.
\<close>

lemma replace_keeps_bound:
  assumes inv: "ids_below_counter s"
    and k: "NEXT_ID s \<le> k" and b: "eid b \<le> k"
    and s': "NEXT_ID s' = snd (createEntriesWithOptionalSplit b k)"
      "set (eintraege s') \<subseteq> set (eintraege s) \<union>
         set (entries (fst (createEntriesWithOptionalSplit b k)))"
      "set (splits s') \<subseteq> set (splits s) \<union>
         {sp. split (fst (createEntriesWithOptionalSplit b k)) = Some sp}"
  shows "ids_below_counter s'"
proof -
  note B = createEntries_bounds[OF b]
  from k B(1) have le: "NEXT_ID s \<le> NEXT_ID s'" by (simp add: s'(1))
  have "eid e \<le> NEXT_ID s'" if "e \<in> set (eintraege s')" for e
  proof -
    from that s'(2) consider "e \<in> set (eintraege s)"
      | "e \<in> set (entries (fst (createEntriesWithOptionalSplit b k)))" by blast
    then show ?thesis
    proof cases
      case 1
      with inv le show ?thesis by (auto simp: ids_below_counter_def)
    next
      case 2
      with B(2) show ?thesis by (simp add: s'(1))
    qed
  qed
  moreover have "firstId p \<le> NEXT_ID s' \<and> secondId p \<le> NEXT_ID s'"
    if "p \<in> set (splits s')" for p
  proof -
    from that s'(3) consider "p \<in> set (splits s)"
      | "split (fst (createEntriesWithOptionalSplit b k)) = Some p" by blast
    then show ?thesis
    proof cases
      case 1
      with inv le show ?thesis by (fastforce simp: ids_below_counter_def)
    next
      case 2
      with B(3) show ?thesis by (simp add: s'(1))
    qed
  qed
  ultimately show ?thesis by (simp add: ids_below_counter_def)
qed

lemma handleAddStart_bound:
  "ids_below_counter s \<Longrightarrow> ids_below_counter (handleAddStart c t d s)"
  by (fastforce simp: ids_below_counter_def handleAddStart_def generateId_def
      updateEintraege_def set_sortByIdDesc Let_def)

lemma handleAddFixedNoonEntry_bound:
  "ids_below_counter s \<Longrightarrow> ids_below_counter (handleAddFixedNoonEntry c d s)"
  by (fastforce simp: ids_below_counter_def handleAddFixedNoonEntry_def generateId_def
      updateEintraege_def set_sortByIdDesc Let_def)

lemma handleDeleteEntry_bound:
  "ids_below_counter s \<Longrightarrow> ids_below_counter (handleDeleteEntry c i s)"
  by (auto simp: ids_below_counter_def handleDeleteEntry_def updateSplits_def
      updateEintraege_def resetEditState_def set_sortByIdDesc Let_def split: option.splits)

lemma handleAddEnde_bound:
  assumes "ids_below_counter s"
  shows "ids_below_counter (handleAddEnde t s)"
proof (cases "handleAddEnde t s = s")
  case True
  with assms show ?thesis by simp
next
  case False
  then obtain i oe where i: "openId (getOpenEntryInfo (eintraege s)) = Some i"
    and h: "hasOpen (getOpenEntryInfo (eintraege s))"
    and f: "find (\<lambda>e. eid e = i) (eintraege s) = Some oe"
    by (auto simp: handleAddEnde_def Let_def split: option.splits if_splits)
  from f have oe: "oe \<in> set (eintraege s)" by (auto simp: find_Some_iff)
  with assms have b: "eid (oe\<lparr>ende := Some t\<rparr>) \<le> NEXT_ID s"
    by (simp add: ids_below_counter_def)
  show ?thesis
    by (rule replace_keeps_bound[OF assms order_refl b])
      (auto simp: handleAddEnde_def i h f Let_def case_prod_beta updateSplits_def
        updateEintraege_def set_sortByIdDesc split: option.splits)
qed


lemma saved_state_bound:
  assumes inv: "ids_below_counter s" and b: "eid b \<le> NEXT_ID s + 1"
    and kE: "set keepE \<subseteq> set (eintraege s)" and kS: "set keepS \<subseteq> set (splits s)"
  shows "ids_below_counter
     (resetEditState
        (updateSplits
           (case split (fst (createEntriesWithOptionalSplit b (NEXT_ID s + 1))) of
              Some sp \<Rightarrow> keepS @ [sp]
            | None \<Rightarrow> keepS)
           (updateEintraege
              (keepE @ entries (fst (createEntriesWithOptionalSplit b (NEXT_ID s + 1))))
              (s\<lparr>NEXT_ID := snd (createEntriesWithOptionalSplit b (NEXT_ID s + 1))\<rparr>))))"
proof (rule replace_keeps_bound[OF inv _ b])
  show "NEXT_ID s \<le> NEXT_ID s + 1" by simp
qed (use kE kS in \<open>auto simp: resetEditState_def updateSplits_def updateEintraege_def
      set_sortByIdDesc split: option.splits\<close>)

lemma handleSaveEdit_bound:
  assumes inv: "ids_below_counter s"
  shows "ids_below_counter (handleSaveEdit s)"
proof (cases "editingEntryId s")
  case None
  with inv show ?thesis by (simp add: handleSaveEdit_def)
next
  case (Some i)
  let ?r = "\<lambda>b. createEntriesWithOptionalSplit b (NEXT_ID s + 1)"
  let ?saved = "\<lambda>b keepE keepS.
     resetEditState
        (updateSplits
           (case split (fst (?r b)) of Some sp \<Rightarrow> keepS @ [sp] | None \<Rightarrow> keepS)
           (updateEintraege (keepE @ entries (fst (?r b))) (s\<lparr>NEXT_ID := snd (?r b)\<rparr>)))"
  let ?edit = "\<lambda>x. if editMode s = Mode_start then x\<lparr>start := editingStart s\<rparr>
                    else x\<lparr>ende := Some (editingEnde s)\<rparr>"
  have S: "ids_below_counter (?saved b keepE keepS)"
    if "eid b \<le> NEXT_ID s + 1" "set keepE \<subseteq> set (eintraege s)"
      "set keepS \<subseteq> set (splits s)" for b keepE keepS
    using saved_state_bound[OF inv that] .
  have eb: "eid (?edit x) = eid x" for x :: Eintrag by simp
  show ?thesis
  proof (cases "i = 0 \<or> (editMode s = Mode_start \<and> editingStart s = [])
                 \<or> (editMode s = Mode_ende \<and> editingEnde s = [])")
    case True
    then have "handleSaveEdit s = s" by (auto simp: handleSaveEdit_def Some)
    with inv show ?thesis by simp
  next
    case False
    then have ok: "(i = 0) = False" "(editMode s = Mode_start \<and> editingStart s = []) = False"
      "(editMode s = Mode_ende \<and> editingEnde s = []) = False" by simp_all
    show ?thesis
    proof (cases "find (\<lambda>e. eid e = i) (eintraege s)")
      case None
      have "handleSaveEdit s = resetEditState s"
        by (simp add: handleSaveEdit_def Some None ok)
      with inv show ?thesis by (simp add: ids_below_counter_def resetEditState_def)
    next
      case orig: (Some original)
      show ?thesis
      proof (cases "find (\<lambda>p. firstId p = eid original \<or> secondId p = eid original) (splits s)")
        case None
        have "handleSaveEdit s =
            ?saved (?edit (original\<lparr>eid := NEXT_ID s + 1\<rparr>))
              (filter (\<lambda>e. eid e \<noteq> eid original) (eintraege s)) (splits s)"
          by (simp add: handleSaveEdit_def Some orig None ok Let_def case_prod_beta generateId_def
              split del: if_split cong del: if_weak_cong)
        moreover have "ids_below_counter
           (?saved (?edit (original\<lparr>eid := NEXT_ID s + 1\<rparr>))
              (filter (\<lambda>e. eid e \<noteq> eid original) (eintraege s)) (splits s))"
          by (rule S) (simp_all only: eb, simp_all)
        ultimately show ?thesis by (simp only:)
      next
        case pair: (Some p)
        show ?thesis
        proof (cases "\<exists>f g. find (\<lambda>e. eid e = firstId p) (eintraege s) = Some f \<and>
                         find (\<lambda>e. eid e = secondId p) (eintraege s) = Some g")
          case True
          then obtain f g where f: "find (\<lambda>e. eid e = firstId p) (eintraege s) = Some f"
            and g: "find (\<lambda>e. eid e = secondId p) (eintraege s) = Some g" by blast
          have "handleSaveEdit s =
              ?saved (?edit \<lparr>eid = NEXT_ID s + 1, date = date f, start = start f, ende = ende g\<rparr>)
                (filter (\<lambda>e. eid e \<noteq> firstId p \<and> eid e \<noteq> secondId p) (eintraege s))
                (filter (\<lambda>q. sid q \<noteq> sid p) (splits s))"
            by (simp add: handleSaveEdit_def Some orig pair f g ok Let_def case_prod_beta
                generateId_def buildBaseFromSplit_def
                split del: if_split cong del: if_weak_cong)
          moreover have "ids_below_counter
             (?saved (?edit \<lparr>eid = NEXT_ID s + 1, date = date f, start = start f, ende = ende g\<rparr>)
                (filter (\<lambda>e. eid e \<noteq> firstId p \<and> eid e \<noteq> secondId p) (eintraege s))
                (filter (\<lambda>q. sid q \<noteq> sid p) (splits s)))"
            by (rule S) (simp_all only: eb, simp_all)
          ultimately show ?thesis by (simp only:)
        next
          case False
          have "handleSaveEdit s =
              ?saved (?edit (original\<lparr>eid := NEXT_ID s + 1\<rparr>))
                (filter (\<lambda>e. eid e \<noteq> eid original) (eintraege s))
                (filter (\<lambda>q. sid q \<noteq> sid p) (splits s))"
          proof (cases "find (\<lambda>e. eid e = firstId p) (eintraege s)")
            case None
            show ?thesis
              by (simp add: handleSaveEdit_def Some orig pair None ok Let_def case_prod_beta
                  generateId_def
                  split del: if_split cong del: if_weak_cong)
          next
            case f: (Some f)
            with False have g: "find (\<lambda>e. eid e = secondId p) (eintraege s) = None"
              by (cases "find (\<lambda>e. eid e = secondId p) (eintraege s)") auto
            show ?thesis
              by (simp add: handleSaveEdit_def Some orig pair f g ok Let_def case_prod_beta
                  generateId_def
                  split del: if_split cong del: if_weak_cong)
          qed
          moreover have "ids_below_counter
             (?saved (?edit (original\<lparr>eid := NEXT_ID s + 1\<rparr>))
                (filter (\<lambda>e. eid e \<noteq> eid original) (eintraege s))
                (filter (\<lambda>q. sid q \<noteq> sid p) (splits s)))"
            by (rule S) (simp_all only: eb, simp_all)
          ultimately show ?thesis by (simp only:)
        qed
      qed
    qed
  qed
qed

text \<open>
  So the handlers keep the ids at or below the counter: the hypothesis under which
  an edit is shown above to discard the old ids holds in every state that comes
  from such a state (the empty one, or stored collections older than the counter).
\<close>

lemma handlers_keep_ids_below_counter:
  assumes "ids_below_counter s"
  shows "ids_below_counter (handleAddStart c t d s)"
    and "ids_below_counter (handleAddEnde t s)"
    and "ids_below_counter (handleAddFixedNoonEntry c d s)"
    and "ids_below_counter (handleSaveEdit s)"
    and "ids_below_counter (handleDeleteEntry c i s)"
  using assms handleAddStart_bound handleAddEnde_bound handleAddFixedNoonEntry_bound
    handleSaveEdit_bound handleDeleteEntry_bound by blast+

section \<open>The calendar on some dates\<close>

text \<open>
  The day count starts at 1970-01-01; two days after 28 February of a leap year is
  1 March, and two days after the last day of a year is 2 January.
\<close>

lemma calendar_epoch:
  "days_from_civil 1970 1 1 = 0" "civil_from_days 0 = (1970, 1, 1)"
proof -
  show "days_from_civil 1970 1 1 = 0" by (simp add: days_from_civil_def)
  show "civil_from_days 0 = (1970, 1, 1)" unfolding civil_from_days_def Let_def by simp
qed

lemma shift_over_leap_day: "shift_days 2 ''2024-02-28'' = Some ''2024-03-01''"
proof -
  have p: "parseISODate ''2024-02-28'' = Some (2024, 2, 28)"
    by (simp add: is_digit_def digit_val_def days_in_month_def leap_year_def)
  have d: "days_from_civil 2024 2 28 = 19781" by (simp add: days_from_civil_def)
  have c: "civil_from_days 19783 = (2024, 3, 1)"
    unfolding civil_from_days_def Let_def by simp
  have i: "iso_date (2024, 3, 1) = ''2024-03-01''"
    by (simp add: iso_date_def pad_number_def padStart_def Number_toString_def digit_char_def)
  show ?thesis by (simp add: shift_days_def p d c i del: parseISODate.simps)
qed

lemma shift_over_new_year: "shift_days 2 ''2023-12-31'' = Some ''2024-01-02''"
proof -
  have p: "parseISODate ''2023-12-31'' = Some (2023, 12, 31)"
    by (simp add: is_digit_def digit_val_def days_in_month_def leap_year_def)
  have d: "days_from_civil 2023 12 31 = 19722" by (simp add: days_from_civil_def)
  show ?thesis by (simp add: shift_days_def p d civil_19724 iso_2024 del: parseISODate.simps)
qed

lemma no_30_february: "parseISODate ''2023-02-30'' = None"
  by (simp add: is_digit_def digit_val_def days_in_month_def leap_year_def)

end
